theory Spec2Isabelle
  imports Main "HOL-Library.Sublist"
begin

section \<open>JavaScript strings and numbers\<close>

text \<open>
  The script \<^verbatim>\<open>browser_patches/repack-juggler.mjs\<close> works on JavaScript strings. A string
  is modelled as a list of 8-bit characters, read as the code units U+0000 to U+00FF, so the
  white space of \<^verbatim>\<open>trim\<close>, of the regular expression \<^verbatim>\<open>\s\<close> and of \<^verbatim>\<open>parseInt\<close> is
  TAB, LF, VT, FF, CR, SPACE and NBSP.
\<close>

definition isWhiteSpace :: "char \<Rightarrow> bool" where
  "isWhiteSpace c = (of_char c \<in> {9, 10, 11, 12, 13, 32, 160 :: nat})"

definition trim :: "string \<Rightarrow> string" where
  "trim s = rev (dropWhile isWhiteSpace (rev (dropWhile isWhiteSpace s)))"

text \<open>\<^verbatim>\<open>s.split(c)\<close> for a separator of one character: the empty string gives one empty piece.\<close>

fun split_on :: "char \<Rightarrow> string \<Rightarrow> string list" where
  "split_on c [] = [[]]"
| "split_on c (x # xs) =
     (if x = c then [] # split_on c xs
      else (case split_on c xs of [] \<Rightarrow> [[x]] | t # ts \<Rightarrow> (x # t) # ts))"

text \<open>\<^verbatim>\<open>s.split(/\s+/)\<close>: the pieces between the maximal runs of white space; a run at the
  start or at the end leaves an empty piece there.\<close>

function split_ws :: "string \<Rightarrow> string list" where
  "split_ws [] = [[]]"
| "split_ws (x # xs) =
     (if isWhiteSpace x then [] # split_ws (dropWhile isWhiteSpace xs)
      else (case split_ws xs of [] \<Rightarrow> [[x]] | t # ts \<Rightarrow> (x # t) # ts))"
  by pat_completeness auto
termination
  by (relation "measure length") (auto simp: le_imp_less_Suc length_dropWhile_le)

fun join :: "string \<Rightarrow> string list \<Rightarrow> string" where
  "join sep [] = []"
| "join sep [x] = x"
| "join sep (x # y # ys) = x @ sep @ join sep (y # ys)"

definition startsWith :: "string \<Rightarrow> string \<Rightarrow> bool" where
  "startsWith s p = prefix p s"

definition endsWith :: "string \<Rightarrow> string \<Rightarrow> bool" where
  "endsWith s p = suffix p s"

definition String_includes :: "string \<Rightarrow> string \<Rightarrow> bool" where
  "String_includes s p = sublist p s"

text \<open>\<^verbatim>\<open>s.slice(a, b)\<close>: a negative index counts from the end, both are clamped to the string.\<close>

definition slice :: "string \<Rightarrow> int \<Rightarrow> int \<Rightarrow> string" where
  "slice s a b =
     (let n = int (length s);
          lo = (if a < 0 then max (n + a) 0 else min a n);
          hi = (if b < 0 then max (n + b) 0 else min b n)
      in take (nat (hi - lo)) (drop (nat lo) s))"

text \<open>\<^verbatim>\<open>s.substring(a, b)\<close>: both indices are clamped to the string, and swapped when
  the first is the larger.\<close>

definition substring :: "string \<Rightarrow> int \<Rightarrow> int \<Rightarrow> string" where
  "substring s a b =
     (let n = int (length s);
          a' = max 0 (min a n);
          b' = max 0 (min b n);
          lo = min a' b';
          hi = max a' b'
      in take (nat (hi - lo)) (drop (nat lo) s))"

definition toLowerCase_char :: "char \<Rightarrow> char" where
  "toLowerCase_char c =
     (let n = (of_char c :: nat)
      in if (65 \<le> n \<and> n \<le> 90) \<or> (192 \<le> n \<and> n \<le> 222 \<and> n \<noteq> 215)
         then char_of (n + 32) else c)"

definition toLowerCase :: "string \<Rightarrow> string" where
  "toLowerCase s = map toLowerCase_char s"

text \<open>A string or \<^verbatim>\<open>undefined\<close> is truthy when it is a non-empty string.\<close>

fun truthy :: "string option \<Rightarrow> bool" where
  "truthy None = False"
| "truthy (Some v) = (v \<noteq> [])"

text \<open>
  The numbers of the script are results of \<^verbatim>\<open>parseInt(x, 10)\<close>, or \<^verbatim>\<open>undefined\<close> where a
  destructuring finds no element. \<^verbatim>\<open>parseInt\<close> returns the double nearest to the integer
  that the digits denote (ties to the even significand), and \<^verbatim>\<open>Infinity\<close> from
  \<open>2^1024 - 2^970\<close> on. A double with an integer value is modelled by that integer, and
  \<open>2^1024\<close>, which is no double, stands for \<^verbatim>\<open>Infinity\<close>; so the comparisons of the
  script are those of the integers. (\<^verbatim>\<open>-0\<close> compares and prints as \<open>0\<close>.)
\<close>

datatype number = Undefined | NaN | Num int

definition isDigit :: "char \<Rightarrow> bool" where
  "isDigit c = (48 \<le> (of_char c :: nat) \<and> (of_char c :: nat) \<le> 57)"

definition digits_value :: "string \<Rightarrow> int" where
  "digits_value ds = fold (\<lambda>c acc. 10 * acc + (of_char c - 48)) ds 0"

text \<open>The number of binary digits of a positive integer.\<close>

function bit_length :: "int \<Rightarrow> nat" where
  "bit_length n = (if n \<le> 0 then 0 else Suc (bit_length (n div 2)))"
  by pat_completeness auto
termination
  by (relation "measure nat") auto

declare bit_length.simps [simp del]

text \<open>The double nearest to a non-negative integer: below \<open>2^53\<close> the integer itself,
  above it the 53 leading binary digits, rounded to nearest with ties to even.\<close>

definition round_double :: "int \<Rightarrow> int" where
  "round_double n =
     (if n < 2 ^ 53 then n
      else (let e = bit_length n - 53;
                q = n div 2 ^ e;
                r = n mod 2 ^ e;
                m = (if 2 ^ e < 2 * r \<or> (2 * r = 2 ^ e \<and> odd q) then q + 1 else q)
            in if 1024 < bit_length (m * 2 ^ e) then 2 ^ 1024 else m * 2 ^ e))"

definition parseInt :: "string \<Rightarrow> number" where
  "parseInt s =
     (let t = dropWhile isWhiteSpace s;
          neg = (case t of [] \<Rightarrow> False | c # r \<Rightarrow> c = CHR ''-'');
          u = (case t of [] \<Rightarrow> [] | c # r \<Rightarrow> if c = CHR ''-'' \<or> c = CHR ''+'' then r else t);
          ds = takeWhile isDigit u
      in if ds = [] then NaN
         else Num (if neg then - round_double (digits_value ds) else round_double (digits_value ds)))"

text \<open>The decimal digits of a natural number (the status code of a response).\<close>

fun digits_of :: "nat \<Rightarrow> string" where
  "digits_of n =
     (if n < 10 then [''0123456789'' ! n]
      else digits_of (n div 10) @ [''0123456789'' ! (n mod 10)])"

declare digits_of.simps [simp del]

text \<open>The decimal digits of a non-negative integer.\<close>

function decimal :: "int \<Rightarrow> string" where
  "decimal n =
     (if n < 10 then [''0123456789'' ! nat n]
      else decimal (n div 10) @ [''0123456789'' ! nat (n mod 10)])"
  by pat_completeness auto
termination
  by (relation "measure nat") auto

declare decimal.simps [simp del]

text \<open>
  The text a template literal prints for a number (\<^verbatim>\<open>Number::toString\<close>): the decimal
  with the fewest significant digits among those that \<^verbatim>\<open>parseInt\<close> would round to the same
  double, and of these the nearest one; written in full up to 21 digits, and with an exponent
  beyond. The candidates with \<open>k\<close> significant digits are the two multiples of
  \<open>10^(n-k)\<close> around the value, the nearer one first.
\<close>

definition decimal_candidates :: "int \<Rightarrow> int list" where
  "decimal_candidates v =
     concat (map (\<lambda>k. let unit = 10 ^ (length (decimal v) - k);
                           lo = (v div unit) * unit;
                           hi = lo + unit
                       in if v - lo < hi - v \<or> (v - lo = hi - v \<and> even (v div unit))
                          then [lo, hi] else [hi, lo])
                 [1 ..< length (decimal v)])
     @ [v]"

definition shortest_decimal :: "int \<Rightarrow> int" where
  "shortest_decimal v =
     (case find (\<lambda>y. round_double y = v) (decimal_candidates v) of None \<Rightarrow> v | Some y \<Rightarrow> y)"

definition print_double :: "int \<Rightarrow> string" where
  "print_double v =
     (if 1024 < bit_length v then ''Infinity''
      else (let ds = decimal (shortest_decimal v)
            in if length ds \<le> 21 then ds
               else (case rev (dropWhile (\<lambda>c. c = CHR ''0'') (rev ds)) of
                       [] \<Rightarrow> ds
                     | d # rest \<Rightarrow> d # (if rest = [] then [] else CHR ''.'' # rest)
                                    @ ''e+'' @ digits_of (length ds - 1))))"

fun Number_toString :: "number \<Rightarrow> string" where
  "Number_toString Undefined = ''undefined''"
| "Number_toString NaN = ''NaN''"
| "Number_toString (Num i) = (if i < 0 then CHR ''-'' # print_double (- i) else print_double i)"

fun num_ge :: "number \<Rightarrow> int \<Rightarrow> bool" where
  "num_ge (Num i) k = (k \<le> i)"
| "num_ge _ k = False"

fun num_gt :: "number \<Rightarrow> int \<Rightarrow> bool" where
  "num_gt (Num i) k = (k < i)"
| "num_gt _ k = False"

fun num_le :: "number \<Rightarrow> int \<Rightarrow> bool" where
  "num_le (Num i) k = (i \<le> k)"
| "num_le _ k = False"

section \<open>Paths, the file system and the trace of calls\<close>

text \<open>
  A path is the list of its segments below the root; a final empty segment is a trailing
  slash. \<^verbatim>\<open>path.join\<close> of a base and a relative string normalises as Node does on POSIX:
  empty segments and \<^verbatim>\<open>.\<close> are dropped, \<^verbatim>\<open>..\<close> removes the segment before it and stays at
  the root, and a trailing slash of the relative string is kept (except at the root).
  \<^verbatim>\<open>path.dirname\<close> ignores a trailing slash.
\<close>

type_synonym path = "string list"

fun normalize_segments :: "path \<Rightarrow> string list \<Rightarrow> path" where
  "normalize_segments acc [] = acc"
| "normalize_segments acc (x # xs) =
     (if x = [] \<or> x = ''.'' then normalize_segments acc xs
      else if x = ''..'' then normalize_segments (butlast acc) xs
      else normalize_segments (acc @ [x]) xs)"

definition strip_slash :: "path \<Rightarrow> path" where
  "strip_slash p = rev (dropWhile (\<lambda>segment. segment = []) (rev p))"

definition path_join :: "path \<Rightarrow> string \<Rightarrow> path" where
  "path_join base rel =
     (if rel = [] then base
      else (let segments = normalize_segments (strip_slash base) (split_on CHR ''/'' rel)
            in if last rel = CHR ''/'' \<and> segments \<noteq> [] then segments @ [[]] else segments))"

definition path_dirname :: "path \<Rightarrow> path" where
  "path_dirname p = butlast (strip_slash p)"

text \<open>The path as the string the script sees.\<close>

definition path_string :: "path \<Rightarrow> string" where
  "path_string p = (if p = [] then ''/'' else concat (map (\<lambda>seg. CHR ''/'' # seg) p))"

datatype node = File string | Dir

type_synonym store = "(path \<times> node) list"

datatype error =
    FsError path
  | TypeError string
  | Error string
  | ArchiveError path
  | ExecError string
  | RequestError string
  | UncaughtError string
  | ProcessExit nat

text \<open>
  Every call that reaches outside the process is recorded, in the order of the calls,
  whether it succeeds or not: the trace is what "performs no download" or "copies the
  backup once" are stated on.
\<close>

datatype event =
    ExecSync string
  | HttpRequest string string
  | ResponseResume
  | CreateWriteStream path
  | Rm path
  | Mkdir path
  | MkdirRecursive path
  | CopyFile path path
  | WriteFile path
  | Unlink path
  | ExtractAllTo path path bool bool
  | WriteZip path
  | InstallFirefoxPreferences path

record state =
  fs :: store
  events :: "event list"

definition emit :: "event \<Rightarrow> state \<Rightarrow> state" where
  "emit e s = s\<lparr>events := events s @ [e]\<rparr>"

subsection \<open>The store\<close>

text \<open>What a path resolves to: the root is a directory, and a path with a trailing slash
  resolves to what the path without the slash resolves to, provided that is a directory.\<close>

definition lookup :: "store \<Rightarrow> path \<Rightarrow> node option" where
  "lookup st p =
     (let q = strip_slash p
      in case (if q = [] then Some Dir else map_of st q) of
           None \<Rightarrow> None
         | Some Dir \<Rightarrow> Some Dir
         | Some (File c) \<Rightarrow> if q = p then Some (File c) else None)"

text \<open>The content of the file at a path, if the path resolves to a file.\<close>

definition file_at :: "store \<Rightarrow> path \<Rightarrow> string option" where
  "file_at st q = (case lookup st q of Some (File c) \<Rightarrow> Some c | _ \<Rightarrow> None)"

fun isFile :: "node option \<Rightarrow> bool" where
  "isFile (Some (File c)) = True"
| "isFile _ = False"

definition store_rm :: "path \<Rightarrow> store \<Rightarrow> store" where
  "store_rm p st = filter (\<lambda>(q, n). \<not> prefix p q) st"

definition store_mkdir_p :: "path \<Rightarrow> store \<Rightarrow> store option" where
  "store_mkdir_p p st =
     (if list_ex (\<lambda>q. isFile (lookup st q)) (prefixes p) then None
      else Some (map (\<lambda>q. (q, Dir)) (filter (\<lambda>q. lookup st q = None) (prefixes p)) @ st))"

definition store_write :: "path \<Rightarrow> string \<Rightarrow> store \<Rightarrow> store option" where
  "store_write p c st =
     (if p = [] \<or> lookup st (butlast p) \<noteq> Some Dir \<or> lookup st p = Some Dir then None
      else Some ((p, File c) # st))"

definition store_keys :: "store \<Rightarrow> path list" where
  "store_keys st = remdups (map fst st)"

definition readdir :: "store \<Rightarrow> path \<Rightarrow> string list" where
  "readdir st p = remdups (map last (filter (\<lambda>q. q \<noteq> [] \<and> butlast q = p) (map fst st)))"

subsection \<open>The calls of \<^verbatim>\<open>fs\<close> and \<^verbatim>\<open>fs.promises\<close>\<close>

definition existsAsync :: "path \<Rightarrow> state \<Rightarrow> bool" where
  "existsAsync p s = (lookup (fs s) p \<noteq> None)"

definition fs_readFile :: "path \<Rightarrow> state \<Rightarrow> error + string" where
  "fs_readFile p s = (case lookup (fs s) p of Some (File c) \<Rightarrow> Inr c | _ \<Rightarrow> Inl (FsError p))"

definition fs_rm_recursive :: "path \<Rightarrow> state \<Rightarrow> (error + unit) \<times> state" where
  "fs_rm_recursive p s =
     (let s1 = emit (Rm p) s
      in if lookup (fs s) p = None then (Inl (FsError p), s1)
         else (Inr (), s1\<lparr>fs := store_rm (strip_slash p) (fs s)\<rparr>))"

definition fs_mkdir :: "path \<Rightarrow> state \<Rightarrow> (error + unit) \<times> state" where
  "fs_mkdir p s =
     (let s1 = emit (Mkdir p) s;
          q = strip_slash p
      in if lookup (fs s) q \<noteq> None \<or> lookup (fs s) (butlast q) \<noteq> Some Dir
         then (Inl (FsError p), s1)
         else (Inr (), s1\<lparr>fs := (q, Dir) # fs s\<rparr>))"

definition fs_mkdir_recursive :: "path \<Rightarrow> state \<Rightarrow> (error + unit) \<times> state" where
  "fs_mkdir_recursive p s =
     (let s1 = emit (MkdirRecursive p) s
      in case store_mkdir_p (strip_slash p) (fs s) of
           None \<Rightarrow> (Inl (FsError p), s1)
         | Some st \<Rightarrow> (Inr (), s1\<lparr>fs := st\<rparr>))"

definition fs_writeFile :: "path \<Rightarrow> string \<Rightarrow> state \<Rightarrow> (error + unit) \<times> state" where
  "fs_writeFile p c s =
     (let s1 = emit (WriteFile p) s
      in case store_write p c (fs s) of
           None \<Rightarrow> (Inl (FsError p), s1)
         | Some st \<Rightarrow> (Inr (), s1\<lparr>fs := st\<rparr>))"

definition fs_copyFile :: "path \<Rightarrow> path \<Rightarrow> state \<Rightarrow> (error + unit) \<times> state" where
  "fs_copyFile src dst s =
     (let s1 = emit (CopyFile src dst) s
      in case lookup (fs s) src of
           Some (File c) \<Rightarrow>
             (case store_write dst c (fs s) of
                None \<Rightarrow> (Inl (FsError dst), s1)
              | Some st \<Rightarrow> (Inr (), s1\<lparr>fs := st\<rparr>))
         | _ \<Rightarrow> (Inl (FsError src), s1))"

definition fs_unlink :: "path \<Rightarrow> state \<Rightarrow> (error + unit) \<times> state" where
  "fs_unlink p s =
     (let s1 = emit (Unlink p) s
      in if isFile (lookup (fs s) p)
         then (Inr (), s1\<lparr>fs := filter (\<lambda>(q, n). q \<noteq> p) (fs s)\<rparr>)
         else (Inl (FsError p), s1))"

text \<open>\<^verbatim>\<open>fs.createWriteStream(p)\<close> with a response piped into it: the file holds the body
  when the stream finishes, and the stream fails when the file cannot be opened.\<close>

definition fs_createWriteStream :: "path \<Rightarrow> string \<Rightarrow> state \<Rightarrow> (error + unit) \<times> state" where
  "fs_createWriteStream p body s =
     (let s1 = emit (CreateWriteStream p) s
      in case store_write p body (fs s) of
           None \<Rightarrow> (Inl (FsError p), s1)
         | Some st \<Rightarrow> (Inr (), s1\<lparr>fs := st\<rparr>))"

text \<open>Sequencing of calls that can throw: the first error ends the sequence, with the
  state reached so far.\<close>

definition andThen ::
  "((error + 'a) \<times> state) \<Rightarrow> ('a \<Rightarrow> state \<Rightarrow> (error + 'b) \<times> state) \<Rightarrow> (error + 'b) \<times> state" where
  "andThen r f = (case r of (Inl e, s) \<Rightarrow> (Inl e, s) | (Inr a, s) \<Rightarrow> f a s)"

section \<open>The host, the network and the libraries\<close>

record response =
  statusCode :: nat
  location :: "string option"
  body :: string

datatype jvalue =
    JNull
  | JBool bool
  | JNum int
  | JStr string
  | JArr "jvalue list"
  | JObj "(string \<times> jvalue) list"

record ZipEntry =
  entryName :: string
  getData :: string

text \<open>
  What the script finds around it: the platform name, the directory of the script, the
  output of the two commands it runs (\<open>None\<close> when the command fails), the answer of the
  network to a request for a URL (\<open>None\<close> when the request fails), and the libraries it
  calls without defining them: \<^verbatim>\<open>JSON\<close>, the zip codec of \<^verbatim>\<open>adm-zip\<close>, and the module
  \<^verbatim>\<open>install-preferences.js\<close>. It also gives the time at which the \<^verbatim>\<open>lstat\<close> of a path
  completes when \<^verbatim>\<open>listFiles\<close> visits the build directory concurrently.
\<close>

record world =
  os_platform :: string
  dirname :: path
  execSync :: "string \<Rightarrow> string option"
  net :: "string \<Rightarrow> response option"
  JSON_parse :: "string \<Rightarrow> jvalue option"
  JSON_stringify :: "jvalue \<Rightarrow> string"
  zip_read :: "string \<Rightarrow> ZipEntry list option"
  zip_write :: "ZipEntry list \<Rightarrow> string"
  installFirefoxPreferences :: "path \<Rightarrow> state \<Rightarrow> (error + unit) \<times> state"
  lstat_latency :: "path \<Rightarrow> nat"

definition child_process_execSync :: "world \<Rightarrow> string \<Rightarrow> state \<Rightarrow> (error + string) \<times> state" where
  "child_process_execSync w cmd s =
     (case execSync w cmd of
        None \<Rightarrow> (Inl (ExecError cmd), emit (ExecSync cmd) s)
      | Some out \<Rightarrow> (Inr out, emit (ExecSync cmd) s))"

section \<open>Host platform\<close>

text \<open>The body of the loop of \<^verbatim>\<open>getUbuntuVersionInternal\<close> over the lines of the release
  text.\<close>

definition release_line :: "string \<Rightarrow> (string \<rightharpoonup> string) \<Rightarrow> (string \<rightharpoonup> string)" where
  "release_line line flds =
     (case split_on CHR ''='' line of
        [] \<Rightarrow> flds
      | name # tokens \<Rightarrow>
          (let value = trim (join ''='' tokens);
               value' = (if startsWith value [CHR 0x22] \<and> endsWith value [CHR 0x22]
                         then substring value 1 (int (length value) - 1) else value)
           in if name = [] then flds else flds(toLowerCase name \<mapsto> value')))"

definition getUbuntuVersionInternal :: "string \<Rightarrow> string" where
  "getUbuntuVersionInternal osReleaseText =
     (let flds = fold release_line (split_on CHR 0x0A osReleaseText) Map.empty
      in if truthy (flds ''distrib_id'')
            \<and> map_option toLowerCase (flds ''distrib_id'') = Some ''ubuntu''
         then (case flds ''distrib_release'' of None \<Rightarrow> [] | Some v \<Rightarrow> v)
         else if \<not> truthy (flds ''name'')
            \<or> map_option toLowerCase (flds ''name'') \<noteq> Some ''ubuntu''
         then []
         else (case flds ''version_id'' of None \<Rightarrow> [] | Some v \<Rightarrow> v))"

definition getUbuntuVersionSync :: "world \<Rightarrow> state \<Rightarrow> string" where
  "getUbuntuVersionSync w s =
     (if os_platform w \<noteq> ''linux'' then []
      else (case (if existsAsync [''etc'', ''upstream-release'', ''lsb-release''] s
                  then fs_readFile [''etc'', ''upstream-release'', ''lsb-release''] s
                  else fs_readFile [''etc'', ''os-release''] s) of
              Inl e \<Rightarrow> []
            | Inr osReleaseText \<Rightarrow>
                if osReleaseText = [] then [] else getUbuntuVersionInternal osReleaseText))"

definition LAST_STABLE_MAC_MAJOR_VERSION :: int where
  "LAST_STABLE_MAC_MAJOR_VERSION = 11"

definition getHostPlatform :: "world \<Rightarrow> state \<Rightarrow> (error + string) \<times> state" where
  "getHostPlatform w s =
     (let platform = os_platform w
      in if platform = ''darwin'' then
           andThen (child_process_execSync w ''sw_vers -productVersion'' s) (\<lambda>out s1.
             let versions = map parseInt (split_on CHR ''.'' (trim out));
                 major = (case versions of [] \<Rightarrow> Undefined | x # xs \<Rightarrow> x);
                 minor = (case versions of x # y # ys \<Rightarrow> y | _ \<Rightarrow> Undefined)
             in andThen
                  (if num_ge major 11
                   then andThen (child_process_execSync w ''/usr/sbin/sysctl -in hw.optional.arm64'' s1)
                          (\<lambda>out2 s2. (Inr (trim out2 = ''1''), s2))
                   else (Inr False, s1))
                  (\<lambda>arm64 s3.
                     let macVersion =
                           (if major = Num 10 then Number_toString major @ ''.'' @ Number_toString minor
                            else if num_gt major LAST_STABLE_MAC_MAJOR_VERSION
                            then Number_toString (Num LAST_STABLE_MAC_MAJOR_VERSION)
                            else Number_toString major);
                         archSuffix = (if arm64 then ''-arm64'' else [])
                     in (Inr (''mac'' @ macVersion @ archSuffix), s3)))
         else if platform = ''linux'' then
           (let ubuntuVersion = getUbuntuVersionSync w s
            in if num_le (parseInt ubuntuVersion) 19 then (Inr ''ubuntu18.04'', s)
               else (Inr ''ubuntu20.04'', s))
         else if platform = ''win32'' then (Inr ''win64'', s)
         else (Inr platform, s))"

section \<open>Download\<close>

text \<open>
  \<^verbatim>\<open>httpRequest\<close> issues the request and, on a status from 300 to 399 with a truthy
  \<^verbatim>\<open>Location\<close> header, calls itself on the new location; there is no bound on the number of
  hops, so on a cycle of redirects it never calls back: the value \<open>None\<close>.
\<close>

partial_function (option) httpRequest ::
  "world \<Rightarrow> string \<Rightarrow> string \<Rightarrow> state \<Rightarrow> ((error + response) \<times> state) option" where
  "httpRequest w url method s =
     (case net w url of
        None \<Rightarrow> Some (Inl (RequestError url), emit (HttpRequest method url) s)
      | Some res \<Rightarrow>
          if 300 \<le> statusCode res \<and> statusCode res < 400 \<and> truthy (location res)
          then httpRequest w (case location res of None \<Rightarrow> [] | Some l \<Rightarrow> l) method
                 (emit (HttpRequest method url) s)
          else Some (Inr res, emit (HttpRequest method url) s))"

declare httpRequest.simps [code]

text \<open>
  \<^verbatim>\<open>downloadFile\<close>: the promise is rejected when the first request fails (only that request
  has an error handler; a failure of a later one is an uncaught error event), rejected
  with the status and the URL when the final status is not 200, and fulfilled when the
  body is written. The progress callback only prints, and is left out.
\<close>

definition downloadFile ::
  "world \<Rightarrow> string \<Rightarrow> path \<Rightarrow> state \<Rightarrow> ((error + unit) \<times> state) option" where
  "downloadFile w url destinationPath s =
     (case httpRequest w url ''GET'' s of
        None \<Rightarrow> None
      | Some (Inl e, s1) \<Rightarrow>
          Some (if net w url = None then (Inl e, s1)
                else (Inl (UncaughtError (case e of RequestError u \<Rightarrow> u | _ \<Rightarrow> [])), s1))
      | Some (Inr response, s1) \<Rightarrow>
          if statusCode response \<noteq> 200
          then Some (Inl (Error (''Download failed: server returned code ''
                        @ digits_of (statusCode response) @ ''. URL: '' @ url)),
                     emit ResponseResume s1)
          else Some (fs_createWriteStream destinationPath (body response) s1))"

section \<open>The script's constants\<close>

text \<open>The build variant: \<^verbatim>\<open>browserName\<close> is set once, from the first argument of the
  command line, to one of two strings; with any other argument the script exits before it
  does anything else.\<close>

datatype browser = Firefox | FirefoxBeta

fun name_of :: "browser \<Rightarrow> string" where
  "name_of Firefox = ''firefox''"
| "name_of FirefoxBeta = ''firefox-beta''"

definition path_joins :: "path \<Rightarrow> string list \<Rightarrow> path" where
  "path_joins base rels = fold (\<lambda>rel p. path_join p rel) rels base"

definition JARMN_PATH :: "world \<Rightarrow> browser \<Rightarrow> path" where
  "JARMN_PATH w browserName = path_joins (dirname w) [name_of browserName, ''juggler'', ''jar.mn'']"

definition BUILD_DIRECTORY :: "world \<Rightarrow> path" where
  "BUILD_DIRECTORY w =
     (if os_platform w = ''win32'' then path_join (dirname w) ''__repackaged_firefox__''
      else [''tmp'', ''repackaged-firefox''])"

definition BUILD_INFO_PATH :: "world \<Rightarrow> path" where
  "BUILD_INFO_PATH w = BUILD_DIRECTORY w @ [''build-info.json'']"

definition OMNI_BACKUP_PATH :: "world \<Rightarrow> path" where
  "OMNI_BACKUP_PATH w = BUILD_DIRECTORY w @ [''omni.ja.backup'']"

definition OMNI_EXTRACT_DIR :: "world \<Rightarrow> path" where
  "OMNI_EXTRACT_DIR w = BUILD_DIRECTORY w @ [''omni'']"

definition OMNI_JUGGLER_DIR :: "world \<Rightarrow> path" where
  "OMNI_JUGGLER_DIR w = OMNI_EXTRACT_DIR w @ [''chrome'', ''juggler'']"

definition EXECUTABLE_PATHS :: "(string \<times> string list) list" where
  "EXECUTABLE_PATHS =
     [(''ubuntu18.04'', [''firefox'', ''firefox'']),
      (''ubuntu20.04'', [''firefox'', ''firefox'']),
      (''mac10.14'', [''firefox'', ''Nightly.app'', ''Contents'', ''MacOS'', ''firefox'']),
      (''mac10.15'', [''firefox'', ''Nightly.app'', ''Contents'', ''MacOS'', ''firefox'']),
      (''mac11'', [''firefox'', ''Nightly.app'', ''Contents'', ''MacOS'', ''firefox'']),
      (''mac11-arm64'', [''firefox'', ''Nightly.app'', ''Contents'', ''MacOS'', ''firefox'']),
      (''win64'', [''firefox'', ''firefox.exe''])]"

fun DOWNLOAD_URLS :: "browser \<Rightarrow> (string \<times> string) list" where
  "DOWNLOAD_URLS Firefox =
     [(''ubuntu18.04'', ''https://playwright.azureedge.net/builds/firefox/%s/firefox-ubuntu-18.04.zip''),
      (''ubuntu20.04'', ''https://playwright.azureedge.net/builds/firefox/%s/firefox-ubuntu-20.04.zip''),
      (''mac10.14'', ''https://playwright.azureedge.net/builds/firefox/%s/firefox-mac-11.zip''),
      (''mac10.15'', ''https://playwright.azureedge.net/builds/firefox/%s/firefox-mac-11.zip''),
      (''mac11'', ''https://playwright.azureedge.net/builds/firefox/%s/firefox-mac-11.zip''),
      (''mac11-arm64'', ''https://playwright.azureedge.net/builds/firefox/%s/firefox-mac-11-arm64.zip''),
      (''win64'', ''https://playwright.azureedge.net/builds/firefox/%s/firefox-win64.zip'')]"
| "DOWNLOAD_URLS FirefoxBeta =
     [(''ubuntu18.04'', ''https://playwright.azureedge.net/builds/firefox-beta/%s/firefox-beta-ubuntu-18.04.zip''),
      (''ubuntu20.04'', ''https://playwright.azureedge.net/builds/firefox-beta/%s/firefox-beta-ubuntu-20.04.zip''),
      (''mac10.14'', ''https://playwright.azureedge.net/builds/firefox-beta/%s/firefox-beta-mac-11.zip''),
      (''mac10.15'', ''https://playwright.azureedge.net/builds/firefox-beta/%s/firefox-beta-mac-11.zip''),
      (''mac11'', ''https://playwright.azureedge.net/builds/firefox-beta/%s/firefox-beta-mac-11.zip''),
      (''mac11-arm64'', ''https://playwright.azureedge.net/builds/firefox-beta/%s/firefox-beta-mac-11-arm64.zip''),
      (''win64'', ''https://playwright.azureedge.net/builds/firefox-beta/%s/firefox-beta-win64.zip'')]"

text \<open>
  The two tables of \<^verbatim>\<open>DOWNLOAD_URLS\<close> are object literals, so a read \<^verbatim>\<open>table[key]\<close> finds
  the table's own keys and also the properties every object inherits from
  \<^verbatim>\<open>Object.prototype\<close>. The inherited values are functions, and the prototype object itself
  under \<^verbatim>\<open>__proto__\<close>: all truthy. They are listed with the text \<^verbatim>\<open>util.inspect\<close> prints for
  them, which is what \<^verbatim>\<open>util.format\<close> makes of a first argument that is not a string.
\<close>

definition Object_prototype :: "(string \<times> string) list" where
  "Object_prototype =
     [(''constructor'', ''[Function: Object]''),
      (''__defineGetter__'', ''[Function: __defineGetter__]''),
      (''__defineSetter__'', ''[Function: __defineSetter__]''),
      (''hasOwnProperty'', ''[Function: hasOwnProperty]''),
      (''__lookupGetter__'', ''[Function: __lookupGetter__]''),
      (''__lookupSetter__'', ''[Function: __lookupSetter__]''),
      (''isPrototypeOf'', ''[Function: isPrototypeOf]''),
      (''propertyIsEnumerable'', ''[Function: propertyIsEnumerable]''),
      (''toString'', ''[Function: toString]''),
      (''valueOf'', ''[Function: valueOf]''),
      (''__proto__'', ''[Object: null prototype] {}''),
      (''toLocaleString'', ''[Function: toLocaleString]'')]"

datatype property = Missing | Own string | Inherited string

definition object_get :: "(string \<times> string) list \<Rightarrow> string \<Rightarrow> property" where
  "object_get table key =
     (case map_of table key of
        Some v \<Rightarrow> Own v
      | None \<Rightarrow> (case map_of Object_prototype key of
                   Some text \<Rightarrow> Inherited text
                 | None \<Rightarrow> Missing))"

text \<open>\<^verbatim>\<open>util.format(template, arg)\<close> for the templates of the table: the first \<^verbatim>\<open>%s\<close> is
  replaced by the argument; a template without one gets the argument appended after a
  space. (The other placeholders of \<^verbatim>\<open>util.format\<close> do not occur in the table.)\<close>

fun util_format :: "string \<Rightarrow> string \<Rightarrow> string" where
  "util_format (c # d # rest) arg =
     (if c = CHR ''%'' \<and> d = CHR ''s'' then arg @ rest else c # util_format (d # rest) arg)"
| "util_format template arg = template @ '' '' @ arg"

text \<open>A value read from a table is truthy unless it is \<^verbatim>\<open>undefined\<close> or the empty string.
  \<^verbatim>\<open>util.format(urlTemplate, buildNumber)\<close> formats a string as above; a value that is not
  a string is printed, and the build number follows after a space.\<close>

fun property_truthy :: "property \<Rightarrow> bool" where
  "property_truthy Missing = False"
| "property_truthy (Own v) = (v \<noteq> [])"
| "property_truthy (Inherited text) = True"

fun format_property :: "property \<Rightarrow> string \<Rightarrow> string" where
  "format_property Missing arg = ''undefined '' @ arg"
| "format_property (Own template) arg = util_format template arg"
| "format_property (Inherited text) arg = text @ '' '' @ arg"

section \<open>Archives\<close>

text \<open>
  The zip archives are read and written by the library \<^verbatim>\<open>adm-zip\<close>. The entries of an
  archive are a list; \<open>zip_read\<close> and \<open>zip_write\<close> of the world are the codec between the
  bytes of a file and that list. \<^verbatim>\<open>new AdmZip(path)\<close> throws when the file cannot be read or
  is not an archive; the object it returns holds the entries read from the file, and remembers
  the file.
\<close>

record Zip =
  zipFile :: path
  getEntries :: "ZipEntry list"

definition AdmZip :: "world \<Rightarrow> path \<Rightarrow> state \<Rightarrow> error + Zip" where
  "AdmZip w p s =
     (case fs_readFile p s of
        Inl e \<Rightarrow> Inl (ArchiveError p)
      | Inr bytes \<Rightarrow>
          (case zip_read w bytes of
             None \<Rightarrow> Inl (ArchiveError p)
           | Some entries \<Rightarrow> Inr \<lparr>zipFile = p, getEntries = entries\<rparr>))"

definition isDirectory :: "ZipEntry \<Rightarrow> bool" where
  "isDirectory e = (entryName e \<noteq> [] \<and> last (entryName e) = CHR ''/'')"

text \<open>Modelled from the spec: \<^verbatim>\<open>ZipEntry.toString\<close> belongs to \<^verbatim>\<open>adm-zip\<close> and is not in the
  repository; the spec (4.5, step 2) has the scan look at the entry names, so the string of
  an entry is its name.\<close>

definition ZipEntry_toString :: "ZipEntry \<Rightarrow> string" where
  "ZipEntry_toString e = entryName e"

text \<open>
  \<^verbatim>\<open>zip.extractAllTo(target, overwrite, keepOriginalPermission)\<close>, after the contract of the
  spec (4.3): every entry is expanded below the target, the name made canonical first (no
  segment leaves the target), intermediate directories created as needed; with overwrite
  disabled a path that exists is left as it is. File modes are not part of the store, so the
  permission flag only shows in the trace.
\<close>

definition canonical :: "string \<Rightarrow> path" where
  "canonical name = normalize_segments [] (split_on CHR ''/'' name)"

definition extract_entry :: "path \<Rightarrow> bool \<Rightarrow> ZipEntry \<Rightarrow> store \<Rightarrow> store option" where
  "extract_entry target overwrite e st =
     (let p = target @ canonical (entryName e)
      in if isDirectory e then store_mkdir_p p st
         else if lookup st p \<noteq> None \<and> (\<not> overwrite \<or> lookup st p = Some Dir) then Some st
         else (case store_mkdir_p (butlast p) st of
                 None \<Rightarrow> None
               | Some st1 \<Rightarrow> store_write p (getData e) st1))"

fun extract_entries :: "path \<Rightarrow> bool \<Rightarrow> ZipEntry list \<Rightarrow> store \<Rightarrow> bool \<times> store" where
  "extract_entries target overwrite [] st = (True, st)"
| "extract_entries target overwrite (e # es) st =
     (case extract_entry target overwrite e st of
        None \<Rightarrow> (False, st)
      | Some st1 \<Rightarrow> extract_entries target overwrite es st1)"

definition extractAllTo ::
  "Zip \<Rightarrow> path \<Rightarrow> bool \<Rightarrow> bool \<Rightarrow> state \<Rightarrow> (error + unit) \<times> state" where
  "extractAllTo archive target overwrite keepOriginalPermission s =
     (let s1 = emit (ExtractAllTo (zipFile archive) target overwrite keepOriginalPermission) s
      in case extract_entries target overwrite (getEntries archive) (fs s) of
           (True, st) \<Rightarrow> (Inr (), s1\<lparr>fs := st\<rparr>)
         | (False, st) \<Rightarrow> (Inl (ArchiveError (zipFile archive)), s1\<lparr>fs := st\<rparr>))"

text \<open>\<^verbatim>\<open>zip.addLocalFolder(root)\<close>: one entry for every file and every directory below the
  root, named by its path relative to the root (a directory with a final slash).\<close>

definition addLocalFolder :: "path \<Rightarrow> state \<Rightarrow> error + ZipEntry list" where
  "addLocalFolder root s =
     (if lookup (fs s) root = None then Inl (FsError root)
      else Inr (map (\<lambda>q. case lookup (fs s) q of
                            Some (File c) \<Rightarrow> \<lparr>entryName = join ''/'' (drop (length root) q), getData = c\<rparr>
                          | _ \<Rightarrow> \<lparr>entryName = join ''/'' (drop (length root) q) @ ''/'', getData = []\<rparr>)
                  (filter (strict_prefix root) (store_keys (fs s)))))"

definition writeZip :: "world \<Rightarrow> ZipEntry list \<Rightarrow> path \<Rightarrow> state \<Rightarrow> (error + unit) \<times> state" where
  "writeZip w entries target s =
     (let s1 = emit (WriteZip target) s
      in case store_write target (zip_write w entries) (fs s) of
           None \<Rightarrow> (Inl (FsError target), s1)
         | Some st \<Rightarrow> (Inr (), s1\<lparr>fs := st\<rparr>))"

section \<open>ensureFirefoxBuild\<close>

text \<open>A property of a parsed JSON value: reading one from \<^verbatim>\<open>null\<close> throws; a value that is
  not an object has none of the three properties the script reads.\<close>

fun get_property :: "jvalue \<Rightarrow> string \<Rightarrow> error + jvalue option" where
  "get_property JNull k = Inl (TypeError k)"
| "get_property (JObj kvs) k = Inr (map_of kvs k)"
| "get_property v k = Inr None"

definition buildInfo_object :: "string \<Rightarrow> string \<Rightarrow> string \<Rightarrow> jvalue" where
  "buildInfo_object buildNumber buildPlatform browserName =
     JObj [(''buildNumber'', JStr buildNumber), (''buildPlatform'', JStr buildPlatform),
           (''browserName'', JStr browserName)]"

text \<open>The descriptor read from \<^verbatim>\<open>build-info.json\<close>: the three empty strings when the file
  cannot be read or parsed.\<close>

definition currentBuildInfo :: "world \<Rightarrow> state \<Rightarrow> jvalue" where
  "currentBuildInfo w s =
     (case fs_readFile (BUILD_INFO_PATH w) s of
        Inl e \<Rightarrow> JObj [(''buildPlatform'', JStr []), (''buildNumber'', JStr []), (''browserName'', JStr [])]
      | Inr text \<Rightarrow>
          (case JSON_parse w text of
             None \<Rightarrow> JObj [(''buildPlatform'', JStr []), (''buildNumber'', JStr []), (''browserName'', JStr [])]
           | Some v \<Rightarrow> v))"

text \<open>The request after defaulting: the build number is the first line of the file
  \<^verbatim>\<open>BUILD_NUMBER\<close> when the argument is missing or empty, the platform is the host's.\<close>

definition resolve_buildNumber :: "world \<Rightarrow> browser \<Rightarrow> string option \<Rightarrow> state \<Rightarrow> error + string" where
  "resolve_buildNumber w browserName buildNumber s =
     (if truthy buildNumber then Inr (case buildNumber of None \<Rightarrow> [] | Some n \<Rightarrow> n)
      else (case fs_readFile (path_joins (dirname w) [name_of browserName, ''BUILD_NUMBER'']) s of
              Inl e \<Rightarrow> Inl e
            | Inr text \<Rightarrow> Inr (case split_on CHR 0x0A text of [] \<Rightarrow> [] | l # ls \<Rightarrow> l)))"

definition resolve_buildPlatform :: "world \<Rightarrow> string option \<Rightarrow> state \<Rightarrow> (error + string) \<times> state" where
  "resolve_buildPlatform w buildPlatform s =
     (if truthy buildPlatform then (Inr (case buildPlatform of None \<Rightarrow> [] | Some p \<Rightarrow> p), s)
      else getHostPlatform w s)"

definition descriptor_matches :: "jvalue \<Rightarrow> string \<Rightarrow> string \<Rightarrow> string \<Rightarrow> bool" where
  "descriptor_matches info buildPlatform buildNumber browserName =
     (get_property info ''buildPlatform'' = Inr (Some (JStr buildPlatform))
      \<and> get_property info ''buildNumber'' = Inr (Some (JStr buildNumber))
      \<and> get_property info ''browserName'' = Inr (Some (JStr browserName)))"

text \<open>
  The path taken when the descriptor does not match. First the build directory is removed
  (a failure of the removal is ignored) and created again. Then the URL template is read
  from the table; a falsy one throws. \<^verbatim>\<open>download_and_extract\<close> is the rest: the download,
  the extraction and the new descriptor.
\<close>

definition download_and_extract ::
  "world \<Rightarrow> browser \<Rightarrow> string \<Rightarrow> string \<Rightarrow> string \<Rightarrow> state \<Rightarrow> ((error + jvalue) \<times> state) option" where
  "download_and_extract w browserName buildNumber buildPlatform url s2 =
     (case downloadFile w url (BUILD_DIRECTORY w @ [''firefox.zip'']) s2 of
        None \<Rightarrow> None
      | Some (Inl e, s3) \<Rightarrow> Some (Inl e, s3)
      | Some (Inr u1, s3) \<Rightarrow>
          (case AdmZip w (BUILD_DIRECTORY w @ [''firefox.zip'']) s3 of
             Inl e \<Rightarrow> Some (Inl e, s3)
           | Inr archive \<Rightarrow>
               Some (andThen
                 (extractAllTo archive (BUILD_DIRECTORY w) False True s3)
                 (\<lambda>u2 s4. andThen
                    (fs_writeFile (BUILD_INFO_PATH w)
                       (JSON_stringify w (buildInfo_object buildNumber buildPlatform (name_of browserName))) s4)
                    (\<lambda>u3 s5. (Inr (buildInfo_object buildNumber buildPlatform (name_of browserName)), s5))))))"

definition stage_build ::
  "world \<Rightarrow> browser \<Rightarrow> string \<Rightarrow> string \<Rightarrow> state \<Rightarrow> ((error + jvalue) \<times> state) option" where
  "stage_build w browserName buildNumber buildPlatform s =
     (let s1 = snd (fs_rm_recursive (BUILD_DIRECTORY w) s)
      in case fs_mkdir (BUILD_DIRECTORY w) s1 of
           (Inl e, s2) \<Rightarrow> Some (Inl e, s2)
         | (Inr u, s2) \<Rightarrow>
             (let urlTemplate = object_get (DOWNLOAD_URLS browserName) buildPlatform
              in if \<not> property_truthy urlTemplate
                 then Some (Inl (Error (''ERROR: repack-juggler does not support '' @ buildPlatform)), s2)
                 else download_and_extract w browserName buildNumber buildPlatform
                        (format_property urlTemplate buildNumber) s2))"

definition ensureFirefoxBuild ::
  "world \<Rightarrow> browser \<Rightarrow> string option \<Rightarrow> string option \<Rightarrow> state \<Rightarrow> ((error + jvalue) \<times> state) option" where
  "ensureFirefoxBuild w browserName buildNumberArg buildPlatformArg s =
     (case resolve_buildNumber w browserName buildNumberArg s of
        Inl e \<Rightarrow> Some (Inl e, s)
      | Inr buildNumber \<Rightarrow>
          (case resolve_buildPlatform w buildPlatformArg s of
             (Inl e, s1) \<Rightarrow> Some (Inl e, s1)
           | (Inr buildPlatform, s1) \<Rightarrow>
               (case get_property (currentBuildInfo w s1) ''buildPlatform'' of
                  Inl e \<Rightarrow> Some (Inl e, s1)
                | Inr v \<Rightarrow>
                    if descriptor_matches (currentBuildInfo w s1) buildPlatform buildNumber (name_of browserName)
                    then Some (Inr (currentBuildInfo w s1), s1)
                    else stage_build w browserName buildNumber buildPlatform s1)))"

section \<open>repackageJuggler\<close>

definition collect :: "(error + 'a list) list \<Rightarrow> error + 'a list" where
  "collect rs = foldr (\<lambda>r acc. case r of Inl e \<Rightarrow> Inl e
                                | Inr xs \<Rightarrow> (case acc of Inl e \<Rightarrow> Inl e | Inr ys \<Rightarrow> Inr (xs @ ys)))
                  rs (Inr [])"

definition max_depth :: "store \<Rightarrow> nat" where
  "max_depth st = foldr (\<lambda>q m. max (length q) m) (map fst st) 0"

lemma foldr_max_length: "q \<in> set qs \<Longrightarrow> length q \<le> foldr (\<lambda>q m. max (length q) m) qs 0"
  by (induction qs) auto

lemma max_depth_key: "q \<in> set (map fst st) \<Longrightarrow> length q \<le> max_depth st"
  unfolding max_depth_def by (rule foldr_max_length)

lemma readdir_key: "entry \<in> set (readdir st p) \<Longrightarrow> p @ [entry] \<in> set (map fst st)"
proof -
  assume "entry \<in> set (readdir st p)"
  then obtain q where q: "q \<in> set (map fst st)" "q \<noteq> []" "butlast q = p" "entry = last q"
    by (auto simp: readdir_def)
  then have "p @ [entry] = q" using append_butlast_last_id[of q] by simp
  with q show ?thesis by simp
qed

text \<open>
  \<^verbatim>\<open>listFiles\<close>: the files at and below a path. \<^verbatim>\<open>walkFiles\<close> is the recursion: an
  \<^verbatim>\<open>lstat\<close> of the path, and for a directory a visit of every entry. The script starts the
  visits of the entries of a directory together, and each visit pushes its file onto the one
  shared array when its \<^verbatim>\<open>lstat\<close> has completed; so the array holds the files in the order
  of these completions, which \<^verbatim>\<open>listFiles\<close> takes from the world (files with the same
  completion time in the order of the walk).
\<close>

function walkFiles :: "store \<Rightarrow> path \<Rightarrow> error + path list" where
  "walkFiles st aPath =
     (case lookup st aPath of
        None \<Rightarrow> Inl (FsError aPath)
      | Some (File c) \<Rightarrow> Inr [aPath]
      | Some Dir \<Rightarrow> collect (map (\<lambda>entry. walkFiles st (aPath @ [entry])) (readdir st aPath)))"
  by pat_completeness auto
termination
proof (relation "measure (\<lambda>(st, p). Suc (max_depth st) - length p)")
  show "wf (measure (\<lambda>(st, p). Suc (max_depth st) - length p))" by simp
next
  fix st :: store and aPath :: path and x2 :: node and entry :: string
  assume "entry \<in> set (readdir st aPath)"
  then have "length (aPath @ [entry]) \<le> max_depth st"
    using max_depth_key readdir_key by blast
  then show "((st, aPath @ [entry]), (st, aPath)) \<in> measure (\<lambda>(st, p). Suc (max_depth st) - length p)"
    by simp
qed

definition listFiles :: "world \<Rightarrow> store \<Rightarrow> path \<Rightarrow> error + path list" where
  "listFiles w st aPath =
     (case walkFiles st aPath of
        Inl e \<Rightarrow> Inl e
      | Inr files \<Rightarrow> Inr (sort_key (lstat_latency w) files))"

text \<open>The search for the archive that holds Juggler: the first of the candidates with an
  entry whose string includes \<^verbatim>\<open>chrome/juggler\<close>.\<close>

fun omniWithJuggler :: "world \<Rightarrow> path list \<Rightarrow> state \<Rightarrow> error + path option" where
  "omniWithJuggler w [] s = Inr None"
| "omniWithJuggler w (omniPath # omniPaths) s =
     (case AdmZip w omniPath s of
        Inl e \<Rightarrow> Inl e
      | Inr archive \<Rightarrow>
          if list_ex (\<lambda>zipEntry. String_includes (ZipEntry_toString zipEntry) ''chrome/juggler'')
               (getEntries archive)
          then Inr (Some omniPath)
          else omniWithJuggler w omniPaths s)"

definition jarLines :: "string \<Rightarrow> string list" where
  "jarLines jarmn =
     filter (\<lambda>line. startsWith line ''content/'' \<and> endsWith line '')'')
       (map trim (split_on CHR 0x0A jarmn))"

text \<open>The two tokens of a line of the manifest: \<^verbatim>\<open>tokens[0]\<close> and
  \<^verbatim>\<open>tokens[1].slice(1, -1)\<close>; a line of one token has no \<^verbatim>\<open>tokens[1]\<close>, and the call of
  \<^verbatim>\<open>slice\<close> on it throws.\<close>

definition jarLineTokens :: "string \<Rightarrow> error + (string \<times> string)" where
  "jarLineTokens line =
     (case split_ws line of
        t0 # t1 # ts \<Rightarrow> Inr (t0, slice t1 1 (- 1))
      | _ \<Rightarrow> Inl (TypeError ''tokens[1]''))"

definition copyJarLine :: "world \<Rightarrow> browser \<Rightarrow> string \<Rightarrow> state \<Rightarrow> (error + unit) \<times> state" where
  "copyJarLine w browserName line s =
     (case jarLineTokens line of
        Inl e \<Rightarrow> (Inl e, s)
      | Inr (t0, t1) \<Rightarrow>
          (let toPath = path_join (OMNI_JUGGLER_DIR w) t0;
               fromPath = path_joins (dirname w) [name_of browserName, ''juggler'', t1]
           in andThen (fs_mkdir_recursive (path_dirname toPath) s)
                (\<lambda>u s1. fs_copyFile fromPath toPath s1)))"

fun copyJarLines :: "world \<Rightarrow> browser \<Rightarrow> string list \<Rightarrow> state \<Rightarrow> (error + unit) \<times> state" where
  "copyJarLines w browserName [] s = (Inr (), s)"
| "copyJarLines w browserName (line # lines) s =
     andThen (copyJarLine w browserName line s) (\<lambda>u s1. copyJarLines w browserName lines s1)"

text \<open>\<^verbatim>\<open>repackageJuggler\<close> from the archive it has found on: the backup, the extraction of the
  backup, the replacement of the Juggler directory, the new archive, the preferences, and
  the executable path that is printed last.\<close>

definition repackOmni ::
  "world \<Rightarrow> browser \<Rightarrow> jvalue option \<Rightarrow> path \<Rightarrow> state \<Rightarrow> (error + unit) \<times> state" where
  "repackOmni w browserName buildPlatform omniWithJugglerPath s =
     andThen (if \<not> existsAsync (OMNI_BACKUP_PATH w) s
              then fs_copyFile omniWithJugglerPath (OMNI_BACKUP_PATH w) s else (Inr (), s))
     (\<lambda>u s1. andThen (fs_mkdir (OMNI_EXTRACT_DIR w) (snd (fs_rm_recursive (OMNI_EXTRACT_DIR w) s1)))
     (\<lambda>u s2. case AdmZip w (OMNI_BACKUP_PATH w) s2 of
        Inl e \<Rightarrow> (Inl e, s2)
      | Inr archive \<Rightarrow>
     andThen (extractAllTo archive (OMNI_EXTRACT_DIR w) False True s2)
     (\<lambda>u s3. andThen (fs_rm_recursive (OMNI_JUGGLER_DIR w) s3)
     (\<lambda>u s4. case fs_readFile (JARMN_PATH w browserName) s4 of
        Inl e \<Rightarrow> (Inl e, s4)
      | Inr jarmn \<Rightarrow>
     andThen (copyJarLines w browserName (jarLines jarmn) s4)
     (\<lambda>u s5. andThen (fs_unlink omniWithJugglerPath s5)
     (\<lambda>u s6. case addLocalFolder (OMNI_EXTRACT_DIR w) s6 of
        Inl e \<Rightarrow> (Inl e, s6)
      | Inr newEntries \<Rightarrow>
     andThen (writeZip w newEntries omniWithJugglerPath s6)
     (\<lambda>u s7. andThen (installFirefoxPreferences w (BUILD_DIRECTORY w @ [''firefox''])
                         (emit (InstallFirefoxPreferences (BUILD_DIRECTORY w @ [''firefox''])) s7))
     (\<lambda>u s8. case buildPlatform of
        Some (JStr p) \<Rightarrow>
          (case map_of EXECUTABLE_PATHS p of
             None \<Rightarrow> (Inl (TypeError p), s8)
           | Some segments \<Rightarrow> (Inr (), s8))
      | _ \<Rightarrow> (Inl (TypeError ''buildPlatform''), s8)))))))))"

definition repackageJuggler :: "world \<Rightarrow> browser \<Rightarrow> jvalue \<Rightarrow> state \<Rightarrow> (error + unit) \<times> state" where
  "repackageJuggler w browserName buildInfo s =
     (case get_property buildInfo ''buildPlatform'' of
        Inl e \<Rightarrow> (Inl e, s)
      | Inr buildPlatform \<Rightarrow>
          (case listFiles w (fs s) (BUILD_DIRECTORY w) of
             Inl e \<Rightarrow> (Inl e, s)
           | Inr files \<Rightarrow>
               (case omniWithJuggler w
                       (filter (\<lambda>filePath. endsWith (path_string filePath) ''omni.ja'') files) s of
                  Inl e \<Rightarrow> (Inl e, s)
                | Inr None \<Rightarrow> (Inl (ProcessExit 1), s)
                | Inr (Some omniWithJugglerPath) \<Rightarrow>
                    repackOmni w browserName buildPlatform omniWithJugglerPath s)))"

section \<open>The command line\<close>

text \<open>The build variant, from the first argument of the command line; the script exits
  with status 1 on a request for help and on any other first argument.\<close>

definition browserName_of_argv :: "string option \<Rightarrow> error + browser" where
  "browserName_of_argv arg =
     (if arg = Some ''--help'' \<or> arg = Some ''-h'' then Inl (ProcessExit 1)
      else if arg = Some ''firefox'' \<or> arg = Some ''ff'' then Inr Firefox
      else if arg = Some ''firefox-beta'' \<or> arg = Some ''ff-beta'' then Inr FirefoxBeta
      else Inl (ProcessExit 1))"

definition main :: "world \<Rightarrow> string option \<Rightarrow> string option \<Rightarrow> string option \<Rightarrow> state
    \<Rightarrow> ((error + unit) \<times> state) option" where
  "main w arg2 arg3 arg4 s =
     (case browserName_of_argv arg2 of
        Inl e \<Rightarrow> Some (Inl e, s)
      | Inr browserName \<Rightarrow>
          (case ensureFirefoxBuild w browserName arg3 arg4 s of
             None \<Rightarrow> None
           | Some (Inl e, s1) \<Rightarrow> Some (Inl (ProcessExit 1), s1)
           | Some (Inr buildInfo, s1) \<Rightarrow> Some (repackageJuggler w browserName buildInfo s1)))"

section \<open>Notions of the specification\<close>

text \<open>
  The response chain of a download, in the words of the spec: from the URL, each response
  is a redirect (a status from 300 to 399 with a non-empty \<^verbatim>\<open>Location\<close>) to the next
  URL of the chain, up to the final URL.
\<close>

fun redirect_chain :: "world \<Rightarrow> string \<Rightarrow> string list \<Rightarrow> string \<Rightarrow> bool" where
  "redirect_chain w url [] final = (url = final)"
| "redirect_chain w url (next_url # hops) final =
     (case net w url of
        None \<Rightarrow> False
      | Some res \<Rightarrow> 300 \<le> statusCode res \<and> statusCode res < 400
                    \<and> location res = Some next_url \<and> next_url \<noteq> []
                    \<and> redirect_chain w next_url hops final)"

text \<open>
  An archive at a path holds Juggler when it can be opened and one of its entries has a name
  that includes \<^verbatim>\<open>chrome/juggler\<close>; it lacks Juggler when it can be opened and no entry
  has such a name.
\<close>

definition holds_juggler :: "world \<Rightarrow> state \<Rightarrow> path \<Rightarrow> bool" where
  "holds_juggler w s p =
     (case AdmZip w p s of
        Inl e \<Rightarrow> False
      | Inr archive \<Rightarrow> list_ex (\<lambda>e. sublist ''chrome/juggler'' (entryName e)) (getEntries archive))"

definition lacks_juggler :: "world \<Rightarrow> state \<Rightarrow> path \<Rightarrow> bool" where
  "lacks_juggler w s p =
     (case AdmZip w p s of
        Inl e \<Rightarrow> False
      | Inr archive \<Rightarrow> \<not> list_ex (\<lambda>e. sublist ''chrome/juggler'' (entryName e)) (getEntries archive))"

section \<open>Sample hosts\<close>

text \<open>
  Concrete hosts and states on which the theorems below are instantiated. The sample
  codecs are simple stand-ins for the libraries: an archive is the magic \<^verbatim>\<open>PK\<close> followed
  by its entries, each as name, NUL, data, SOH; a flat object of strings is written as
  \<^verbatim>\<open>{key:value;...}\<close>. In the sample hosts every call to the file system takes the same
  time, so the \<^verbatim>\<open>lstat\<close> of a path completes at a time given by its depth.
\<close>

definition sample_zip_write :: "ZipEntry list \<Rightarrow> string" where
  "sample_zip_write es =
     ''PK'' @ concat (map (\<lambda>e. entryName e @ [CHR 0x00] @ getData e @ [CHR 0x01]) es)"

definition sample_zip_read :: "string \<Rightarrow> ZipEntry list option" where
  "sample_zip_read bytes =
     (if prefix ''PK'' bytes
      then Some (map (\<lambda>r. \<lparr>entryName = takeWhile (\<lambda>c. c \<noteq> CHR 0x00) r,
                           getData = drop 1 (dropWhile (\<lambda>c. c \<noteq> CHR 0x00) r)\<rparr>)
                   (butlast (split_on (CHR 0x01) (drop 2 bytes))))
      else None)"

definition sample_JSON_stringify :: "jvalue \<Rightarrow> string" where
  "sample_JSON_stringify v =
     (case v of
        JObj kvs \<Rightarrow> ''{'' @ concat (map (\<lambda>(k, x). k @ '':'' @ (case x of JStr t \<Rightarrow> t | _ \<Rightarrow> []) @ '';'') kvs) @ ''}''
      | _ \<Rightarrow> ''null'')"

definition sample_JSON_parse :: "string \<Rightarrow> jvalue option" where
  "sample_JSON_parse text =
     (if text = ''null'' then Some JNull
      else if prefix ''{'' text \<and> suffix ''}'' text
      then Some (JObj (map (\<lambda>r. (takeWhile (\<lambda>c. c \<noteq> CHR '':'') r,
                                  JStr (drop 1 (dropWhile (\<lambda>c. c \<noteq> CHR '':'') r))))
                        (butlast (split_on (CHR '';'') (butlast (tl text))))))
      else None)"

definition sample_build :: "ZipEntry list" where
  "sample_build =
     [\<lparr>entryName = ''firefox/'', getData = []\<rparr>,
      \<lparr>entryName = ''firefox/firefox'', getData = ''ELF''\<rparr>,
      \<lparr>entryName = ''firefox/omni.ja'', getData = ''omni''\<rparr>]"

definition sample_net :: "string \<Rightarrow> response option" where
  "sample_net url =
     (if url = ''https://playwright.azureedge.net/builds/firefox/1234/firefox-ubuntu-20.04.zip''
      then Some \<lparr>statusCode = 302, location = Some ''https://cdn.example/a'', body = []\<rparr>
      else if url = ''https://cdn.example/a''
      then Some \<lparr>statusCode = 301, location = Some ''https://cdn.example/b'', body = []\<rparr>
      else if url = ''https://cdn.example/b''
      then Some \<lparr>statusCode = 200, location = None, body = sample_zip_write sample_build\<rparr>
      else if url = ''https://cdn.example/moved''
      then Some \<lparr>statusCode = 302, location = Some ''https://cdn.example/missing'', body = []\<rparr>
      else if url = ''https://cdn.example/missing''
      then Some \<lparr>statusCode = 404, location = None, body = ''not found''\<rparr>
      else None)"

definition sample_world :: "string \<Rightarrow> string \<Rightarrow> string \<Rightarrow> world" where
  "sample_world platform productVersion arm64 =
     \<lparr>os_platform = platform, dirname = [''repo'', ''browser_patches''],
      execSync = (\<lambda>cmd. if cmd = ''sw_vers -productVersion'' then Some productVersion
                        else if cmd = ''/usr/sbin/sysctl -in hw.optional.arm64'' then Some arm64
                        else None),
      net = sample_net,
      JSON_parse = sample_JSON_parse, JSON_stringify = sample_JSON_stringify,
      zip_read = sample_zip_read, zip_write = sample_zip_write,
      installFirefoxPreferences = (\<lambda>p s. (Inr (), s)),
      lstat_latency = length\<rparr>"

definition linux_world :: world where
  "linux_world = sample_world ''linux'' [] []"

definition empty_state :: state where
  "empty_state = \<lparr>fs = [], events = []\<rparr>"



definition tmp_state :: state where
  "tmp_state = \<lparr>fs = [([''tmp''], Dir)], events = []\<rparr>"

definition sample_jarmn :: string where
  "sample_jarmn = ''juggler.jar:'' @ [CHR 0x0A]
     @ ''% content juggler %content/'' @ [CHR 0x0A]
     @ ''  content/foo/bar.js (./foo/bar.js)  '' @ [CHR 0x0A]
     @ ''  content/Helper.js  (Helper.js)'' @ [CHR 0x0D, CHR 0x0A]
     @ ''  content/unfinished (x'' @ [CHR 0x0A]"

definition sample_omni :: "ZipEntry list" where
  "sample_omni =
     [\<lparr>entryName = ''chrome/'', getData = []\<rparr>,
      \<lparr>entryName = ''chrome/toolkit.js'', getData = ''toolkit''\<rparr>,
      \<lparr>entryName = ''chrome/juggler/'', getData = []\<rparr>,
      \<lparr>entryName = ''chrome/juggler/content/'', getData = []\<rparr>,
      \<lparr>entryName = ''chrome/juggler/content/Helper.js'', getData = ''old helper''\<rparr>,
      \<lparr>entryName = ''chrome/juggler/content/stale.js'', getData = ''stale''\<rparr>]"

definition sample_browser_omni :: "ZipEntry list" where
  "sample_browser_omni = [\<lparr>entryName = ''chrome/browser.js'', getData = ''browser''\<rparr>]"

definition staged_state :: state where
  "staged_state =
     \<lparr>fs = [([''tmp''], Dir),
            ([''tmp'', ''repackaged-firefox''], Dir),
            ([''tmp'', ''repackaged-firefox'', ''firefox''], Dir),
            ([''tmp'', ''repackaged-firefox'', ''firefox'', ''firefox''], File ''ELF''),
            ([''tmp'', ''repackaged-firefox'', ''firefox'', ''browser''], Dir),
            ([''tmp'', ''repackaged-firefox'', ''firefox'', ''browser'', ''omni.ja''],
               File (sample_zip_write sample_browser_omni)),
            ([''tmp'', ''repackaged-firefox'', ''firefox'', ''omni.ja''],
               File (sample_zip_write sample_omni)),
            ([''repo''], Dir),
            ([''repo'', ''browser_patches''], Dir),
            ([''repo'', ''browser_patches'', ''firefox''], Dir),
            ([''repo'', ''browser_patches'', ''firefox'', ''juggler''], Dir),
            ([''repo'', ''browser_patches'', ''firefox'', ''juggler'', ''jar.mn''], File sample_jarmn),
            ([''repo'', ''browser_patches'', ''firefox'', ''juggler'', ''Helper.js''], File ''new helper''),
            ([''repo'', ''browser_patches'', ''firefox'', ''juggler'', ''foo''], Dir),
            ([''repo'', ''browser_patches'', ''firefox'', ''juggler'', ''foo'', ''bar.js''], File ''new bar'')],
      events = []\<rparr>"

definition cached_state :: state where
  "cached_state =
     \<lparr>fs = [([''tmp'', ''repackaged-firefox'', ''build-info.json''],
               File ''{buildNumber:1234;buildPlatform:ubuntu20.04;browserName:firefox;}''),
            ([''tmp'', ''repackaged-firefox'', ''firefox'', ''firefox''], File ''ELF''),
            ([''tmp'', ''repackaged-firefox'', ''firefox''], Dir),
            ([''tmp'', ''repackaged-firefox''], Dir),
            ([''tmp''], Dir)],
      events = []\<rparr>"

definition corrupt_state :: state where
  "corrupt_state =
     \<lparr>fs = [([''tmp'', ''repackaged-firefox'', ''build-info.json''], File ''{buildNumber:12''),
            ([''tmp'', ''repackaged-firefox'', ''firefox'', ''firefox''], File ''ELF''),
            ([''tmp'', ''repackaged-firefox'', ''firefox''], Dir),
            ([''tmp'', ''repackaged-firefox''], Dir),
            ([''tmp''], Dir)],
      events = []\<rparr>"

definition three_archives_state :: state where
  "three_archives_state =
     \<lparr>fs = [([''tmp''], Dir),
            ([''tmp'', ''repackaged-firefox''], Dir),
            ([''tmp'', ''repackaged-firefox'', ''a''], Dir),
            ([''tmp'', ''repackaged-firefox'', ''a'', ''omni.ja''],
               File (sample_zip_write sample_browser_omni)),
            ([''tmp'', ''repackaged-firefox'', ''a'', ''sub''], Dir),
            ([''tmp'', ''repackaged-firefox'', ''a'', ''sub'', ''omni.ja''],
               File (sample_zip_write sample_omni)),
            ([''tmp'', ''repackaged-firefox'', ''b''], Dir),
            ([''tmp'', ''repackaged-firefox'', ''b'', ''omni.ja''],
               File (sample_zip_write sample_omni))],
      events = []\<rparr>"

definition unbaked_state :: state where
  "unbaked_state =
     \<lparr>fs = [([''tmp''], Dir),
            ([''tmp'', ''repackaged-firefox''], Dir),
            ([''tmp'', ''repackaged-firefox'', ''firefox''], Dir),
            ([''tmp'', ''repackaged-firefox'', ''firefox'', ''firefox''], File ''ELF''),
            ([''tmp'', ''repackaged-firefox'', ''firefox'', ''browser''], Dir),
            ([''tmp'', ''repackaged-firefox'', ''firefox'', ''browser'', ''omni.ja''],
               File (sample_zip_write sample_browser_omni))],
      events = []\<rparr>"

section \<open>Properties of the file system\<close>

lemma strip_slash_Nil [simp]: "strip_slash [] = []"
  by (simp add: strip_slash_def)

lemma strip_slash_snoc: "strip_slash (p @ [x]) = (if x = [] then strip_slash p else p @ [x])"
  by (simp add: strip_slash_def)

lemma strip_slash_proper: "last p \<noteq> [] \<Longrightarrow> strip_slash p = p"
  by (cases p rule: rev_cases) (simp_all add: strip_slash_snoc)

lemma strip_slash_butlast: "p \<noteq> [] \<Longrightarrow> last p = [] \<Longrightarrow> strip_slash (butlast p) = strip_slash p"
  by (cases p rule: rev_cases) (simp_all add: strip_slash_snoc)

lemma strip_slash_length: "length (strip_slash p) \<le> length p"
  using length_dropWhile_le[of "\<lambda>segment. segment = []" "rev p"] by (simp add: strip_slash_def)

lemma strip_slash_neq: "p \<noteq> [] \<Longrightarrow> last p = [] \<Longrightarrow> strip_slash p \<noteq> p"
proof -
  assume "p \<noteq> []" and "last p = []"
  then obtain ys where p: "p = ys @ [[]]" by (cases p rule: rev_cases) auto
  then have "strip_slash p = strip_slash ys" by (simp add: strip_slash_snoc)
  with strip_slash_length[of ys] p show ?thesis by (auto dest: arg_cong[where f = length])
qed

lemma lookup_Nil [simp]: "lookup st [] = Some Dir"
  by (simp add: lookup_def)

lemma lookup_proper: "p \<noteq> [] \<Longrightarrow> last p \<noteq> [] \<Longrightarrow> lookup st p = map_of st p"
  by (auto simp: lookup_def strip_slash_proper split: option.splits node.splits)

lemma lookup_Dir_iff:
  "lookup st p = Some Dir \<longleftrightarrow> strip_slash p = [] \<or> map_of st (strip_slash p) = Some Dir"
  by (auto simp: lookup_def Let_def split: option.splits node.splits if_splits)

lemma lookup_slash_not_File: "p \<noteq> [] \<Longrightarrow> last p = [] \<Longrightarrow> lookup st p \<noteq> Some (File c)"
  using strip_slash_neq[of p] by (auto simp: lookup_def Let_def split: option.splits node.splits)

lemma file_at_map_of:
  "file_at st q = (if q \<noteq> [] \<and> last q \<noteq> [] then (case map_of st q of Some (File c) \<Rightarrow> Some c | _ \<Rightarrow> None)
                   else None)"
proof (cases "q = []")
  case True
  then show ?thesis by (simp add: file_at_def)
next
  case False
  show ?thesis
  proof (cases "last q = []")
    case True
    with False lookup_slash_not_File[OF False True, of st] show ?thesis
      by (auto simp: file_at_def split: option.splits node.splits)
  next
    case l: False
    with False show ?thesis by (simp add: file_at_def lookup_proper)
  qed
qed

lemma file_at_Nil [simp]: "file_at st [] = None"
  by (simp add: file_at_def)

lemma fs_readFile_file_at: "fs_readFile p s = Inr c \<longleftrightarrow> file_at (fs s) p = Some c"
  by (auto simp: fs_readFile_def file_at_def split: option.splits node.splits)

lemma existsAsync_file_at: "file_at (fs s) p = Some c \<Longrightarrow> existsAsync p s"
  by (auto simp: existsAsync_def file_at_def split: option.splits)

lemma isFile_file_at: "isFile (lookup st p) \<longleftrightarrow> file_at st p \<noteq> None"
  by (cases "lookup st p" rule: isFile.cases) (auto simp: file_at_def)

lemma store_write_Some:
  assumes "store_write p c st = Some st'"
  shows "st' = (p, File c) # st \<and> p \<noteq> [] \<and> last p \<noteq> []"
proof -
  from assms have st': "st' = (p, File c) # st" and ne: "p \<noteq> []"
    and par: "lookup st (butlast p) = Some Dir" and nd: "lookup st p \<noteq> Some Dir"
    by (auto simp: store_write_def split: if_splits)
  have "last p \<noteq> []"
  proof
    assume l: "last p = []"
    from par have "lookup st p = Some Dir"
      unfolding lookup_Dir_iff strip_slash_butlast[OF ne l] .
    with nd show False by simp
  qed
  with st' ne show ?thesis by simp
qed

lemma store_write_lookup:
  assumes "store_write p c st = Some st'"
  shows "lookup st' p = Some (File c)"
  using store_write_Some[OF assms] by (simp add: lookup_proper)

lemma file_at_Cons_File:
  "p \<noteq> [] \<Longrightarrow> last p \<noteq> [] \<Longrightarrow> file_at ((p, File c) # st) q = (if q = p then Some c else file_at st q)"
  by (auto simp: file_at_map_of)

lemma file_at_Cons_Dir:
  "file_at ((p, Dir) # st) q = (if q = p then None else file_at st q)"
  by (auto simp: file_at_map_of)

lemma map_of_store_rm:
  "map_of (store_rm x st) q = (if prefix x q then None else map_of st q)"
  unfolding store_rm_def by (induction st) auto

lemma file_at_store_rm:
  "file_at (store_rm x st) q = (if prefix x q then None else file_at st q)"
  by (auto simp: file_at_map_of map_of_store_rm)

lemma map_of_dirs: "map_of (map (\<lambda>q. (q, Dir)) qs) q = (if q \<in> set qs then Some Dir else None)"
  by (induction qs) auto

lemma file_at_store_mkdir_p:
  assumes "store_mkdir_p p st = Some st'"
  shows "file_at st' q = file_at st q"
proof -
  from assms have st': "st' = map (\<lambda>q. (q, Dir)) (filter (\<lambda>q. lookup st q = None) (prefixes p)) @ st"
    by (auto simp: store_mkdir_p_def split: if_splits)
  show ?thesis
  proof (cases "q \<noteq> [] \<and> last q \<noteq> []")
    case False
    then show ?thesis by (auto simp: file_at_map_of)
  next
    case True
    then have l: "lookup st q = map_of st q" by (simp add: lookup_proper)
    show ?thesis
      unfolding st' using True l
      by (auto simp: file_at_map_of map_add_def map_of_dirs split: option.splits)
  qed
qed

lemma map_of_unlink:
  "map_of (filter (\<lambda>(k, n). k \<noteq> p) st) q = (if q = p then None else map_of st q)"
  by (induction st) auto

lemma file_at_unlink:
  "file_at (filter (\<lambda>(k, n). k \<noteq> p) st) q = (if q = p then None else file_at st q)"
  by (auto simp: file_at_map_of map_of_unlink)

lemma file_at_store_write:
  "store_write p c st = Some st' \<Longrightarrow> file_at st' q = (if q = p then Some c else file_at st q)"
  using store_write_Some[of p c st st'] by (auto simp: file_at_Cons_File)

lemma file_at_extract_entry:
  assumes "extract_entry target ow e st = Some st'" and "\<not> prefix target q"
  shows "file_at st' q = file_at st q"
proof -
  let ?p = "target @ canonical (entryName e)"
  have np: "q \<noteq> ?p" using assms(2) by auto
  show ?thesis
  proof (cases "isDirectory e")
    case True
    with assms(1) have "store_mkdir_p ?p st = Some st'" by (simp add: extract_entry_def Let_def)
    then show ?thesis by (rule file_at_store_mkdir_p)
  next
    case False
    show ?thesis
    proof (cases "lookup st ?p \<noteq> None \<and> (\<not> ow \<or> lookup st ?p = Some Dir)")
      case True
      with False assms(1) show ?thesis by (simp add: extract_entry_def Let_def)
    next
      case nk: False
      with False assms(1) obtain st1 where m: "store_mkdir_p (butlast ?p) st = Some st1"
        and w: "store_write ?p (getData e) st1 = Some st'"
        by (auto simp: extract_entry_def Let_def split: option.splits)
      from file_at_store_write[OF w, of q] np file_at_store_mkdir_p[OF m, of q] show ?thesis by simp
    qed
  qed
qed

lemma file_at_extract_entries:
  assumes "extract_entries target ow es st = (r, st')" and "\<not> prefix target q"
  shows "file_at st' q = file_at st q"
  using assms
proof (induction es arbitrary: st)
  case Nil
  then show ?case by simp
next
  case (Cons e es)
  show ?case
  proof (cases "extract_entry target ow e st")
    case None
    with Cons.prems show ?thesis by simp
  next
    case (Some st1)
    with Cons.prems have "extract_entries target ow es st1 = (r, st')" by simp
    from Cons.IH[OF this Cons.prems(2)] file_at_extract_entry[OF Some Cons.prems(2)]
    show ?thesis by simp
  qed
qed

section \<open>Properties of the host platform\<close>


lemma digit_char: "k < 10 \<Longrightarrow> ''0123456789'' ! k \<in> set ''0123456789''"
  using nth_mem[of k "''0123456789''"] by simp

lemma decimal_chars: "set (decimal n) \<subseteq> set ''0123456789''"
proof (induction n rule: decimal.induct)
  case (1 n)
  show ?case
  proof (cases "n < 10")
    case True
    then have "nat n < 10" by simp
    from digit_char[OF this] True show ?thesis by (subst decimal.simps) simp
  next
    case False
    with 1 have "set (decimal (n div 10)) \<subseteq> set ''0123456789''" by simp
    moreover have "nat (n mod 10) < 10" by simp
    from digit_char[OF this] have "''0123456789'' ! nat (n mod 10) \<in> set ''0123456789''" .
    ultimately show ?thesis using False by (subst decimal.simps) simp
  qed
qed

lemma decimal_length: "0 < k \<Longrightarrow> n < 10 ^ k \<Longrightarrow> length (decimal n) \<le> k"
proof (induction n arbitrary: k rule: decimal.induct)
  case (1 n)
  show ?case
  proof (cases "n < 10")
    case True
    then show ?thesis using "1.prems" by (subst decimal.simps) simp
  next
    case False
    with "1.prems" have "1 < k" by (cases "k = 1") auto
    then obtain j where k: "k = Suc j" and j: "0 < j" by (cases k) auto
    from "1.prems" k have "n div 10 < 10 ^ j" by simp
    from "1.IH"[OF False j this] k False show ?thesis by (subst decimal.simps) simp
  qed
qed

lemma bit_length_le: "n < 2 ^ k \<Longrightarrow> bit_length n \<le> k"
proof (induction n arbitrary: k rule: bit_length.induct)
  case (1 n)
  show ?case
  proof (cases "n \<le> 0")
    case True
    then show ?thesis by (subst bit_length.simps) simp
  next
    case False
    with "1.prems" obtain j where k: "k = Suc j" by (cases k) auto
    from "1.prems" k have "n div 2 < 2 ^ j" by simp
    from "1.IH"[OF False this] k False show ?thesis by (subst bit_length.simps) simp
  qed
qed

lemma bit_length_gt: "2 ^ k \<le> n \<Longrightarrow> k < bit_length n"
proof (induction n arbitrary: k rule: bit_length.induct)
  case (1 n)
  have "(0::int) < 2 ^ k" by (rule zero_less_power) simp
  with "1.prems" have pos: "\<not> n \<le> 0" by linarith
  show ?case
  proof (cases k)
    case 0
    with pos show ?thesis by (subst bit_length.simps) simp
  next
    case (Suc j)
    with "1.prems" have "2 ^ j \<le> n div 2" by simp
    from "1.IH"[OF pos this] Suc pos show ?thesis by (subst bit_length.simps) simp
  qed
qed

lemma bit_length_lower: "0 < n \<Longrightarrow> 2 ^ (bit_length n - 1) \<le> n"
proof (induction n rule: bit_length.induct)
  case (1 n)
  show ?case
  proof (cases "n div 2 \<le> 0")
    case True
    with "1.prems" have "n = 1" by simp
    then show ?thesis by (subst bit_length.simps) (simp add: bit_length.simps[of 0])
  next
    case False
    then have h: "0 < n div 2" by simp
    from "1.prems" have np: "\<not> n \<le> 0" by simp
    from "1.IH"[OF np h] have i: "2 ^ (bit_length (n div 2) - 1) \<le> n div 2" .
    from h have "0 < bit_length (n div 2)" by (subst bit_length.simps) simp
    then obtain j where j: "bit_length (n div 2) = Suc j" by (cases "bit_length (n div 2)") auto
    with i have "2 ^ j \<le> n div 2" by simp
    then have "2 * 2 ^ j \<le> n" by simp
    moreover have "bit_length n = Suc (Suc j)" using np j by (subst bit_length.simps) simp
    ultimately show ?thesis by simp
  qed
qed

lemma round_double_small: "n < 2 ^ 53 \<Longrightarrow> round_double n = n"
  by (simp add: round_double_def)

lemma round_double_large:
  assumes "2 ^ 53 \<le> n"
  shows "2 ^ 53 \<le> round_double n"
proof -
  let ?e = "bit_length n - 53"
  let ?q = "n div 2 ^ ?e"
  let ?r = "n mod 2 ^ ?e"
  let ?m = "if 2 ^ ?e < 2 * ?r \<or> (2 * ?r = 2 ^ ?e \<and> odd ?q) then ?q + 1 else ?q"
  have p53: "(0::int) < 2 ^ 53" by (rule zero_less_power) simp
  from p53 assms have pos: "0 < n" by (rule less_le_trans)
  from bit_length_gt[OF assms] have b: "53 < bit_length n" .
  then have e: "bit_length n - 1 = ?e + 52" by simp
  from bit_length_lower[OF pos] have "2 ^ (?e + 52) \<le> n" unfolding e .
  then have le: "(2::int) ^ ?e * 2 ^ 52 \<le> n" by (simp only: power_add)
  have pe: "(0::int) < 2 ^ ?e" by (rule zero_less_power) simp
  from le pe have "((2::int) ^ ?e * 2 ^ 52) div 2 ^ ?e \<le> n div 2 ^ ?e" by (rule zdiv_mono1)
  moreover from pe have "((2::int) ^ ?e * 2 ^ 52) div 2 ^ ?e = 2 ^ 52"
    by (intro nonzero_mult_div_cancel_left) simp
  ultimately have q0: "(2::int) ^ 52 \<le> ?q" by (simp only:)
  have q: "(2::int) ^ 52 \<le> ?m"
  proof (cases "2 ^ ?e < 2 * ?r \<or> (2 * ?r = 2 ^ ?e \<and> odd ?q)")
    case True
    then have "?m = ?q + 1" by (simp only: if_True)
    with q0 show ?thesis by linarith
  next
    case False
    then have "?m = ?q" by (simp only: if_False)
    with q0 show ?thesis by (simp only:)
  qed
  from b have "1 \<le> ?e" by simp
  then have "(2::int) ^ 1 \<le> 2 ^ ?e" by (intro power_increasing) simp_all
  then have e2: "(2::int) \<le> 2 ^ ?e" by (simp only: power_one_right)
  have "(2::int) ^ 52 * 2 \<le> ?m * 2 ^ ?e"
  proof (rule mult_mono[OF q e2])
    show "(0::int) \<le> ?m" using q by (rule order_trans[rotated]) simp
    show "(0::int) \<le> 2" by simp
  qed
  moreover have "(2::int) ^ 52 * 2 = 2 ^ 53" by simp
  ultimately have v: "(2::int) ^ 53 \<le> ?m * 2 ^ ?e" by (simp only:)
  have big: "(2::int) ^ 53 \<le> 2 ^ 1024" by (intro power_increasing) simp_all
  from assms have nl: "\<not> n < 2 ^ 53" by (simp only: not_less)
  have rd: "round_double n = (if 1024 < bit_length (?m * 2 ^ ?e) then 2 ^ 1024 else ?m * 2 ^ ?e)"
    unfolding round_double_def Let_def if_not_P[OF nl] ..
  show ?thesis
  proof (cases "1024 < bit_length (?m * 2 ^ ?e)")
    case True
    then have "round_double n = 2 ^ 1024" unfolding rd by (simp only: if_True)
    with big show ?thesis by (simp only:)
  next
    case False
    then have "round_double n = ?m * 2 ^ ?e" unfolding rd by (simp only: if_False)
    with v show ?thesis by (simp only:)
  qed
qed

lemma round_double_eq_small:
  assumes "round_double y = v" and "v < 2 ^ 53"
  shows "y = v"
proof (cases "y < 2 ^ 53")
  case True
  with assms show ?thesis by (simp add: round_double_small)
next
  case False
  then have "2 ^ 53 \<le> round_double y" by (intro round_double_large) simp
  with assms show ?thesis by simp
qed

lemma shortest_decimal_small:
  assumes "v < 2 ^ 53"
  shows "shortest_decimal v = v"
proof (cases "find (\<lambda>y. round_double y = v) (decimal_candidates v)")
  case None
  then show ?thesis by (simp add: shortest_decimal_def)
next
  case (Some y)
  then have "round_double y = v" by (auto simp: find_Some_iff)
  from round_double_eq_small[OF this assms] Some show ?thesis by (simp add: shortest_decimal_def)
qed

lemma print_double_small:
  assumes "v < 2 ^ 53"
  shows "print_double v = decimal v"
proof -
  from bit_length_le[OF assms] have "\<not> 1024 < bit_length v" by simp
  moreover have "(2::int) ^ 53 \<le> 10 ^ 16" by simp
  with assms have "v < 10 ^ 16" by simp
  then have "length (decimal v) \<le> 16" by (intro decimal_length) simp_all
  ultimately show ?thesis using shortest_decimal_small[OF assms]
    by (simp add: print_double_def)
qed

lemma digits_of_chars: "set (digits_of n) \<subseteq> set ''0123456789''"
proof (induction n rule: digits_of.induct)
  case (1 n)
  show ?case
  proof (cases "n < 10")
    case True
    then show ?thesis using digit_char[of n] by (subst digits_of.simps) simp
  next
    case False
    with 1 have "set (digits_of (n div 10)) \<subseteq> set ''0123456789''" by simp
    moreover have "''0123456789'' ! (n mod 10) \<in> set ''0123456789''" using digit_char[of "n mod 10"] by simp
    ultimately show ?thesis using False by (subst digits_of.simps) simp
  qed
qed

lemma print_double_no_r: "CHR ''r'' \<notin> set (print_double v)"
proof -
  let ?ds = "decimal (shortest_decimal v)"
  let ?sig = "rev (dropWhile (\<lambda>c. c = CHR ''0'') (rev ?ds))"
  let ?x = "case ?sig of
              [] \<Rightarrow> ?ds
            | d # rest \<Rightarrow> d # (if rest = [] then [] else CHR ''.'' # rest)
                           @ ''e+'' @ digits_of (length ?ds - 1)"
  have d: "CHR ''r'' \<notin> set ?ds" using decimal_chars[of "shortest_decimal v"] by auto
  have "set ?sig \<subseteq> set ?ds" using set_dropWhileD[of _ "\<lambda>c. c = CHR ''0''" "rev ?ds"] by auto
  with d have s: "CHR ''r'' \<notin> set ?sig" by auto
  have n: "CHR ''r'' \<notin> set (digits_of (length ?ds - 1))" using digits_of_chars[of "length ?ds - 1"] by auto
  have x: "CHR ''r'' \<notin> set ?x"
  proof (cases ?sig)
    case Nil
    then have "?x = ?ds" by (simp only: list.case)
    then have "set ?x = set ?ds" by (rule arg_cong)
    with d show ?thesis by blast
  next
    case (Cons c rest)
    with s have c: "c \<noteq> CHR ''r''" and r: "CHR ''r'' \<notin> set rest" by auto
    from Cons have "?x = c # (if rest = [] then [] else CHR ''.'' # rest) @ ''e+'' @ digits_of (length ?ds - 1)"
      by (simp only: list.case)
    with c r n show ?thesis by auto
  qed
  have "print_double v = ''Infinity'' \<or> print_double v = ?ds \<or> print_double v = ?x"
    unfolding print_double_def Let_def by (simp only: split: if_split) blast
  with d x show ?thesis by auto
qed

lemma Number_toString_no_r: "CHR ''r'' \<notin> set (Number_toString m)"
  using print_double_no_r by (cases m) auto

lemma mac10_not_arm64: "\<not> endsWith (''mac10.'' @ Number_toString m) ''-arm64''"
proof
  assume "endsWith (''mac10.'' @ Number_toString m) ''-arm64''"
  then have "set ''-arm64'' \<subseteq> set (''mac10.'' @ Number_toString m)"
    unfolding endsWith_def by (rule set_mono_suffix)
  then have "CHR ''r'' \<in> set (''mac10.'' @ Number_toString m)" by auto
  then show False using Number_toString_no_r[of m] by simp
qed

text \<open>
  C5. On darwin, when the product major version is 11 and the arm64 probe prints 1,
  \<^verbatim>\<open>getHostPlatform\<close> returns \<^verbatim>\<open>mac11-arm64\<close>; for every major version above 11 (the
  newest known one) it returns the tag of version 11, \<^verbatim>\<open>mac11\<close>, with the \<^verbatim>\<open>-arm64\<close>
  suffix exactly when the probe prints 1.
\<close>

theorem getHostPlatform_darwin_arm64_clamp:
  assumes "os_platform w = ''darwin''"
    and "execSync w ''sw_vers -productVersion'' = Some out"
    and "split_on CHR ''.'' (trim out) = v # vs"
    and "parseInt v = Num major"
    and "execSync w ''/usr/sbin/sysctl -in hw.optional.arm64'' = Some probe"
  shows "(major = 11 \<and> trim probe = ''1'' \<longrightarrow> fst (getHostPlatform w s) = Inr ''mac11-arm64'')
       \<and> (major = 11 \<and> trim probe \<noteq> ''1'' \<longrightarrow> fst (getHostPlatform w s) = Inr ''mac11'')
       \<and> (11 < major \<longrightarrow>
            fst (getHostPlatform w s) = Inr (if trim probe = ''1'' then ''mac11-arm64'' else ''mac11''))"
proof -
  have d: "print_double 11 = ''11''" by code_simp
  show ?thesis
    using assms
    by (auto simp: getHostPlatform_def andThen_def child_process_execSync_def
        LAST_STABLE_MAC_MAJOR_VERSION_def Let_def d split: list.splits)
qed

theorem getHostPlatform_darwin_arm64_clamp_witness:
  "fst (getHostPlatform (sample_world ''darwin'' ''11.2'' ''1'') empty_state) = Inr ''mac11-arm64''
   \<and> fst (getHostPlatform (sample_world ''darwin'' ''13.0.1'' ''0'') empty_state) = Inr ''mac11''"
proof -
  have p: "os_platform (sample_world ''darwin'' a b) = ''darwin''" for a b
    by (simp add: sample_world_def)
  have e1: "execSync (sample_world ''darwin'' a b) ''sw_vers -productVersion'' = Some a" for a b
    by (simp add: sample_world_def)
  have e2: "execSync (sample_world ''darwin'' a b) ''/usr/sbin/sysctl -in hw.optional.arm64'' = Some b" for a b
    by (simp add: sample_world_def)
  have s11: "split_on CHR ''.'' (trim ''11.2'') = ''11'' # [''2'']" by code_simp
  have s13: "split_on CHR ''.'' (trim ''13.0.1'') = ''13'' # [''0'', ''1'']" by code_simp
  have p11: "parseInt ''11'' = Num 11" by code_simp
  have p13: "parseInt ''13'' = Num 13" by code_simp
  have t1: "trim ''1'' = ''1''" by code_simp
  have t0: "trim ''0'' \<noteq> ''1''" by code_simp
  from getHostPlatform_darwin_arm64_clamp[OF p e1 s11 p11 e2, of "''1''" empty_state]
       getHostPlatform_darwin_arm64_clamp[OF p e1 s13 p13 e2, of "''0''" empty_state] t1 t0
  show ?thesis by simp
qed

text \<open>
  C10. On darwin with product major version 10, \<^verbatim>\<open>getHostPlatform\<close> returns \<^verbatim>\<open>mac10.\<close>
  followed by the minor version as the template literal prints the number parsed from it:
  its decimal digits when the number is below \<open>2^53\<close> (beyond, the digits of the nearest
  double). The only command run is \<^verbatim>\<open>sw_vers\<close> (the arm64 probe is not executed), and the
  tag does not end with \<^verbatim>\<open>-arm64\<close>.
\<close>

theorem getHostPlatform_darwin_10:
  assumes "os_platform w = ''darwin''"
    and "execSync w ''sw_vers -productVersion'' = Some out"
    and "split_on CHR ''.'' (trim out) = v # vs"
    and "parseInt v = Num 10"
  shows "fst (getHostPlatform w s)
           = Inr (''mac10.'' @ Number_toString (case vs of [] \<Rightarrow> Undefined | y # ys \<Rightarrow> parseInt y))
       \<and> (\<forall>y ys minor. vs = y # ys \<and> parseInt y = Num minor \<and> 0 \<le> minor \<and> minor < 2 ^ 53
            \<longrightarrow> fst (getHostPlatform w s) = Inr (''mac10.'' @ decimal minor))
       \<and> events (snd (getHostPlatform w s)) = events s @ [ExecSync ''sw_vers -productVersion'']
       \<and> (\<forall>tag. fst (getHostPlatform w s) = Inr tag \<longrightarrow> \<not> endsWith tag ''-arm64'')"
proof -
  have r: "getHostPlatform w s
      = (Inr (''mac10.'' @ Number_toString (case vs of [] \<Rightarrow> Undefined | y # ys \<Rightarrow> parseInt y)),
         emit (ExecSync ''sw_vers -productVersion'') s)"
  proof -
    have d: "print_double 10 = ''10''" by code_simp
    show ?thesis
      using assms
      by (auto simp: getHostPlatform_def andThen_def child_process_execSync_def
          LAST_STABLE_MAC_MAJOR_VERSION_def Let_def d split: list.splits)
  qed
  have m: "fst (getHostPlatform w s) = Inr (''mac10.'' @ decimal minor)"
    if "vs = y # ys \<and> parseInt y = Num minor \<and> 0 \<le> minor \<and> minor < 2 ^ 53" for y ys minor
  proof -
    from that have "Number_toString (case vs of [] \<Rightarrow> Undefined | y # ys \<Rightarrow> parseInt y) = print_double minor"
      by simp
    also from that have "\<dots> = decimal minor" by (intro print_double_small) simp
    finally show ?thesis by (simp add: r)
  qed
  from m have "\<forall>y ys minor. vs = y # ys \<and> parseInt y = Num minor \<and> 0 \<le> minor \<and> minor < 2 ^ 53
            \<longrightarrow> fst (getHostPlatform w s) = Inr (''mac10.'' @ decimal minor)"
    by blast
  moreover have "fst (getHostPlatform w s)
           = Inr (''mac10.'' @ Number_toString (case vs of [] \<Rightarrow> Undefined | y # ys \<Rightarrow> parseInt y))"
    by (simp add: r)
  moreover have "events (snd (getHostPlatform w s)) = events s @ [ExecSync ''sw_vers -productVersion'']"
    by (simp add: r emit_def)
  moreover have "\<forall>tag. fst (getHostPlatform w s) = Inr tag \<longrightarrow> \<not> endsWith tag ''-arm64''"
    using mac10_not_arm64 by (simp add: r)
  ultimately show ?thesis by blast
qed

theorem getHostPlatform_darwin_10_witness:
  "fst (getHostPlatform (sample_world ''darwin'' ''10.15.7'' ''1'') empty_state) = Inr ''mac10.15''
   \<and> events (snd (getHostPlatform (sample_world ''darwin'' ''10.15.7'' ''1'') empty_state))
       = [ExecSync ''sw_vers -productVersion'']
   \<and> fst (getHostPlatform (sample_world ''darwin'' ''10.9007199254740993'' ''1'') empty_state)
       = Inr ''mac10.9007199254740992''"
proof -
  have p: "os_platform (sample_world ''darwin'' a b) = ''darwin''" for a b
    by (simp add: sample_world_def)
  have e1: "execSync (sample_world ''darwin'' a b) ''sw_vers -productVersion'' = Some a" for a b
    by (simp add: sample_world_def)
  have s10: "split_on CHR ''.'' (trim ''10.15.7'') = ''10'' # [''15'', ''7'']" by code_simp
  have s10': "split_on CHR ''.'' (trim ''10.9007199254740993'') = ''10'' # [''9007199254740993'']"
    by code_simp
  have p10: "parseInt ''10'' = Num 10" by code_simp
  have p15: "parseInt ''15'' = Num 15" by code_simp
  have d15: "decimal 15 = ''15''" by code_simp
  have n: "''mac10.'' @ Number_toString (parseInt ''9007199254740993'') = ''mac10.9007199254740992''"
    by code_simp
  have c15: "[''15'', ''7''] = ''15'' # [''7''] \<and> parseInt ''15'' = Num 15 \<and> (0::int) \<le> 15 \<and> (15::int) < 2 ^ 53"
    using p15 by simp
  note t = getHostPlatform_darwin_10[OF p e1 s10 p10, of "''1''" empty_state]
  from t have "fst (getHostPlatform (sample_world ''darwin'' ''10.15.7'' ''1'') empty_state)
      = Inr (''mac10.'' @ decimal 15)"
    using c15 by blast
  moreover from t have "events (snd (getHostPlatform (sample_world ''darwin'' ''10.15.7'' ''1'') empty_state))
       = events empty_state @ [ExecSync ''sw_vers -productVersion'']"
    by blast
  ultimately
  have a: "fst (getHostPlatform (sample_world ''darwin'' ''10.15.7'' ''1'') empty_state) = Inr ''mac10.15''
    \<and> events (snd (getHostPlatform (sample_world ''darwin'' ''10.15.7'' ''1'') empty_state))
       = [ExecSync ''sw_vers -productVersion'']"
    using d15 by (simp add: empty_state_def)
  from getHostPlatform_darwin_10[OF p e1 s10' p10, of "''1''" empty_state] n
  have b: "fst (getHostPlatform (sample_world ''darwin'' ''10.9007199254740993'' ''1'') empty_state)
       = Inr ''mac10.9007199254740992''"
    by simp
  from a b show ?thesis by simp
qed



section \<open>Properties of the download\<close>

lemma httpRequest_chain:
  assumes "redirect_chain w url hops final"
    and "net w final = Some res"
    and "\<not> (300 \<le> statusCode res \<and> statusCode res < 400 \<and> truthy (location res))"
  shows "httpRequest w url method s
       = Some (Inr res, s\<lparr>events := events s @ map (HttpRequest method) (url # hops)\<rparr>)"
  using assms
proof (induction hops arbitrary: url s)
  case Nil
  then show ?case by (subst httpRequest.simps) (auto simp: emit_def)
next
  case (Cons h hops)
  from Cons.prems(1) obtain r where r: "net w url = Some r" "300 \<le> statusCode r" "statusCode r < 400"
      "location r = Some h" "h \<noteq> []" "redirect_chain w h hops final"
    by (auto split: option.splits)
  have "httpRequest w url method s = httpRequest w h method (emit (HttpRequest method url) s)"
    using r by (subst httpRequest.simps) simp
  also have "\<dots> = Some (Inr res, (emit (HttpRequest method url) s)\<lparr>events := events (emit (HttpRequest method url) s) @ map (HttpRequest method) (h # hops)\<rparr>)"
    using Cons.IH[OF r(6) Cons.prems(2) Cons.prems(3)] .
  finally show ?case by (simp add: emit_def)
qed

text \<open>
  C3. When the responses from the URL on are redirects (a status from 300 to 399 with a
  \<^verbatim>\<open>Location\<close>) that end in a response with status 200, \<^verbatim>\<open>downloadFile\<close> requests every
  location of the chain in turn, however long the chain is, and then writes the body of the
  final response, and nothing else, to the destination file. (The destination must be a
  path that can be written: its directory exists.)
\<close>

theorem downloadFile_follows_redirects:
  assumes "redirect_chain w url hops final"
    and "net w final = Some res"
    and "statusCode res = 200"
    and "store_write destinationPath (body res) (fs s) = Some st"
  shows "downloadFile w url destinationPath s
       = Some (Inr (), \<lparr>fs = (destinationPath, File (body res)) # fs s,
                        events = events s @ map (HttpRequest ''GET'') (url # hops)
                                   @ [CreateWriteStream destinationPath]\<rparr>)
       \<and> lookup ((destinationPath, File (body res)) # fs s) destinationPath = Some (File (body res))"
proof -
  have nr: "\<not> (300 \<le> statusCode res \<and> statusCode res < 400 \<and> truthy (location res))"
    using assms(3) by simp
  have st: "st = (destinationPath, File (body res)) # fs s"
    using store_write_Some[OF assms(4)] by simp
  have l: "lookup ((destinationPath, File (body res)) # fs s) destinationPath = Some (File (body res))"
    using store_write_lookup[OF assms(4)] st by simp
  show ?thesis
    using assms(3,4) st l
    by (simp add: downloadFile_def httpRequest_chain[OF assms(1,2) nr] fs_createWriteStream_def
        emit_def)
qed

theorem downloadFile_follows_redirects_witness:
  "downloadFile linux_world ''https://playwright.azureedge.net/builds/firefox/1234/firefox-ubuntu-20.04.zip''
       [''tmp'', ''firefox.zip''] tmp_state
     = Some (Inr (), \<lparr>fs = [([''tmp'', ''firefox.zip''], File (sample_zip_write sample_build)), ([''tmp''], Dir)],
                      events = [HttpRequest ''GET'' ''https://playwright.azureedge.net/builds/firefox/1234/firefox-ubuntu-20.04.zip'',
                                HttpRequest ''GET'' ''https://cdn.example/a'',
                                HttpRequest ''GET'' ''https://cdn.example/b'',
                                CreateWriteStream [''tmp'', ''firefox.zip'']]\<rparr>)"
proof -
  let ?res = "\<lparr>statusCode = 200, location = None, body = sample_zip_write sample_build\<rparr>"
  have c: "redirect_chain linux_world
      ''https://playwright.azureedge.net/builds/firefox/1234/firefox-ubuntu-20.04.zip''
      [''https://cdn.example/a'', ''https://cdn.example/b''] ''https://cdn.example/b''"
    by (simp add: linux_world_def sample_world_def sample_net_def)
  have n: "net linux_world ''https://cdn.example/b'' = Some ?res"
    by (simp add: linux_world_def sample_world_def sample_net_def)
  have st: "statusCode ?res = 200" by simp
  have "store_write [''tmp'', ''firefox.zip''] (sample_zip_write sample_build) (fs tmp_state)
      = Some (([''tmp'', ''firefox.zip''], File (sample_zip_write sample_build)) # fs tmp_state)"
    by code_simp
  then have wr: "store_write [''tmp'', ''firefox.zip''] (body ?res) (fs tmp_state)
      = Some (([''tmp'', ''firefox.zip''], File (body ?res)) # fs tmp_state)"
    by simp
  from downloadFile_follows_redirects[OF c n st wr]
  show ?thesis by (simp add: tmp_state_def)
qed

text \<open>
  C7. When the response that ends the chain of redirects has a status other than 200,
  \<^verbatim>\<open>downloadFile\<close> drains the response (\<^verbatim>\<open>resume\<close> is the last call of the trace), opens no
  write stream and leaves the file system as it was, and fails with an error whose message
  includes the status code and the URL the download was called with.
\<close>

theorem downloadFile_non_200:
  assumes "redirect_chain w url hops final"
    and "net w final = Some res"
    and "\<not> (300 \<le> statusCode res \<and> statusCode res < 400 \<and> truthy (location res))"
    and "statusCode res \<noteq> 200"
  shows "\<exists>message s'. downloadFile w url destinationPath s = Some (Inl (Error message), s')
       \<and> fs s' = fs s
       \<and> events s' = events s @ map (HttpRequest ''GET'') (url # hops) @ [ResponseResume]
       \<and> String_includes message (digits_of (statusCode res))
       \<and> String_includes message url"
proof -
  let ?message = "''Download failed: server returned code '' @ digits_of (statusCode res) @ ''. URL: '' @ url"
  let ?s' = "emit ResponseResume (s\<lparr>events := events s @ map (HttpRequest ''GET'') (url # hops)\<rparr>)"
  have d: "downloadFile w url destinationPath s = Some (Inl (Error ?message), ?s')"
    using assms(4) by (simp add: downloadFile_def httpRequest_chain[OF assms(1,2,3)])
  have i1: "String_includes ?message (digits_of (statusCode res))"
    unfolding String_includes_def by (rule sublist_appendI)
  have "sublist url ((''Download failed: server returned code '' @ digits_of (statusCode res) @ ''. URL: '') @ url)"
    by (rule sublist_append_leftI)
  then have i2: "String_includes ?message url"
    unfolding String_includes_def by simp
  have f: "fs ?s' = fs s" and e: "events ?s' = events s @ map (HttpRequest ''GET'') (url # hops) @ [ResponseResume]"
    by (simp_all add: emit_def)
  from d i1 i2 f e show ?thesis by blast
qed

theorem downloadFile_non_200_witness:
  "\<exists>message s'. downloadFile linux_world ''https://cdn.example/moved'' [''tmp'', ''firefox.zip''] tmp_state
        = Some (Inl (Error message), s')
     \<and> fs s' = [([''tmp''], Dir)]
     \<and> events s' = [HttpRequest ''GET'' ''https://cdn.example/moved'',
                     HttpRequest ''GET'' ''https://cdn.example/missing'', ResponseResume]
     \<and> String_includes message ''404''
     \<and> String_includes message ''https://cdn.example/moved''"
proof -
  let ?res = "\<lparr>statusCode = 404, location = None, body = ''not found''\<rparr>"
  have c: "redirect_chain linux_world ''https://cdn.example/moved''
      [''https://cdn.example/missing''] ''https://cdn.example/missing''"
    by (simp add: linux_world_def sample_world_def sample_net_def)
  have n: "net linux_world ''https://cdn.example/missing'' = Some ?res"
    by (simp add: linux_world_def sample_world_def sample_net_def)
  have nr: "\<not> (300 \<le> statusCode ?res \<and> statusCode ?res < 400 \<and> truthy (location ?res))" by simp
  have st: "statusCode ?res \<noteq> 200" by simp
  have d: "digits_of (statusCode ?res) = ''404''" by code_simp
  from downloadFile_non_200[OF c n nr st, of "[''tmp'', ''firefox.zip'']" tmp_state]
  show ?thesis unfolding d by (simp add: tmp_state_def)
qed

section \<open>Properties of the manifest\<close>

lemma slice_strip: "slice t 1 (- 1) = butlast (tl t)"
proof (cases t)
  case Nil
  then show ?thesis by (simp add: slice_def)
next
  case (Cons c r)
  then show ?thesis by (simp add: slice_def butlast_conv_take nat_diff_distrib')
qed

lemma last_dropWhile_eq: "dropWhile P xs \<noteq> [] \<Longrightarrow> last (dropWhile P xs) = last xs"
  by (induction xs) (auto split: if_splits)

lemma trim_ends:
  assumes "trim r \<noteq> []"
  shows "\<not> isWhiteSpace (hd (trim r)) \<and> \<not> isWhiteSpace (last (trim r))"
proof -
  let ?d = "dropWhile isWhiteSpace r"
  let ?ys = "dropWhile isWhiteSpace (rev ?d)"
  have ys: "?ys \<noteq> []" using assms by (simp add: trim_def)
  have d: "?d \<noteq> []"
  proof
    assume "?d = []"
    then have "?ys = []" by (metis dropWhile.simps(1) rev.simps(1))
    with ys show False by blast
  qed
  have "last (trim r) = hd ?ys" using ys by (simp add: trim_def last_rev)
  moreover have "\<not> isWhiteSpace (hd ?ys)" using ys by (rule hd_dropWhile)
  moreover have "hd (trim r) = last ?ys" using ys by (simp add: trim_def hd_rev)
  moreover have "last ?ys = last (rev ?d)" using ys by (rule last_dropWhile_eq)
  moreover have "last (rev ?d) = hd ?d" using d by (simp add: last_rev)
  moreover have "\<not> isWhiteSpace (hd ?d)" using d by (rule hd_dropWhile)
  ultimately show ?thesis by simp
qed

lemma split_ws_not_Nil: "split_ws s \<noteq> []"
  by (cases s) (auto split: list.splits)

lemma split_ws_no_space: "t \<in> set (split_ws s) \<Longrightarrow> c \<in> set t \<Longrightarrow> \<not> isWhiteSpace c"
proof (induction s arbitrary: t rule: split_ws.induct)
  case 1
  then show ?case by simp
next
  case (2 x xs)
  show ?case
  proof (cases "isWhiteSpace x")
    case True
    with 2 show ?thesis by auto
  next
    case False
    obtain u us where u: "split_ws xs = u # us"
      using split_ws_not_Nil[of xs] by (cases "split_ws xs") auto
    with False 2(3) have "t = x # u \<or> t \<in> set us" by simp
    then show ?thesis
    proof
      assume "t = x # u"
      with 2(4) have "c = x \<or> c \<in> set u" by simp
      then show ?thesis using False 2(2)[OF False, of u] u by auto
    next
      assume "t \<in> set us"
      then show ?thesis using 2(2)[OF False, of t] u 2(4) by simp
    qed
  qed
qed

lemma split_ws_hd: "hd (split_ws s) = takeWhile (\<lambda>c. \<not> isWhiteSpace c) s"
proof (induction s rule: split_ws.induct)
  case 1
  then show ?case by simp
next
  case (2 x xs)
  then show ?case using split_ws_not_Nil[of xs] by (cases "split_ws xs") auto
qed

lemma split_ws_tl_empty:
  "[] \<in> set (tl (split_ws s)) \<Longrightarrow> s \<noteq> [] \<and> isWhiteSpace (last s)"
proof (induction s rule: split_ws.induct)
  case 1
  then show ?case by simp
next
  case (2 x xs)
  show ?case
  proof (cases "isWhiteSpace x")
    case True
    let ?d = "dropWhile isWhiteSpace xs"
    from True 2(3) have e: "[] \<in> set (split_ws ?d)" by simp
    have "split_ws ?d = hd (split_ws ?d) # tl (split_ws ?d)"
      using split_ws_not_Nil[of ?d] by simp
    with e have "hd (split_ws ?d) = [] \<or> [] \<in> set (tl (split_ws ?d))"
      by (metis set_ConsD)
    then show ?thesis
    proof
      assume "hd (split_ws ?d) = []"
      then have t: "takeWhile (\<lambda>c. \<not> isWhiteSpace c) ?d = []" by (simp add: split_ws_hd)
      have "?d = []"
      proof (rule ccontr)
        assume n: "?d \<noteq> []"
        then have "\<not> isWhiteSpace (hd ?d)" by (rule hd_dropWhile)
        with n t show False by (cases ?d) auto
      qed
      then have "\<forall>c\<in>set xs. isWhiteSpace c" by simp
      with True show ?thesis by (cases xs rule: rev_cases) auto
    next
      assume "[] \<in> set (tl (split_ws ?d))"
      with 2(1)[OF True] have d: "?d \<noteq> []" "isWhiteSpace (last ?d)" by auto
      then have "last ?d = last xs" by (simp add: last_dropWhile_eq)
      moreover from d have "xs \<noteq> []" by auto
      ultimately show ?thesis using d by simp
    qed
  next
    case False
    obtain u us where u: "split_ws xs = u # us"
      using split_ws_not_Nil[of xs] by (cases "split_ws xs") auto
    with False 2(3) have "[] \<in> set (tl (split_ws xs))" by simp
    with 2(2)[OF False] show ?thesis by auto
  qed
qed

lemma filter_dropWhile_ws:
  "filter (\<lambda>c. \<not> isWhiteSpace c) (dropWhile isWhiteSpace xs) = filter (\<lambda>c. \<not> isWhiteSpace c) xs"
  by (induction xs) auto

lemma split_ws_concat: "concat (split_ws s) = filter (\<lambda>c. \<not> isWhiteSpace c) s"
proof (induction s rule: split_ws.induct)
  case 1
  then show ?case by simp
next
  case (2 x xs)
  then show ?case using split_ws_not_Nil[of xs]
    by (cases "split_ws xs") (auto simp: filter_dropWhile_ws)
qed

lemma split_ws_tokens:
  assumes "line \<noteq> []" "\<not> isWhiteSpace (hd line)" "\<not> isWhiteSpace (last line)"
    and "t \<in> set (split_ws line)"
  shows "t \<noteq> []"
proof
  assume "t = []"
  have c: "split_ws line = hd (split_ws line) # tl (split_ws line)"
    using split_ws_not_Nil[of line] by simp
  from assms(1,2) have "hd (split_ws line) \<noteq> []"
    unfolding split_ws_hd by (cases line) auto
  with c assms(4) \<open>t = []\<close> have "[] \<in> set (tl (split_ws line))" by (metis set_ConsD)
  with assms(3) show False using split_ws_tl_empty by blast
qed

lemma jarLines_trimmed:
  assumes "line \<in> set (jarLines jarmn)"
  shows "line \<noteq> [] \<and> \<not> isWhiteSpace (hd line) \<and> \<not> isWhiteSpace (last line)"
proof -
  from assms obtain raw where l: "line = trim raw" "prefix ''content/'' line"
    by (auto simp: jarLines_def startsWith_def)
  then have "line \<noteq> []" by auto
  with l trim_ends[of raw] show ?thesis by simp
qed

text \<open>
  C4. The lines of the manifest that are applied are exactly the trimmed lines that start
  with \<^verbatim>\<open>content/\<close> and end with \<^verbatim>\<open>)\<close>, in their order; every other line is ignored. An
  applied line is split at its runs of white space into tokens (none empty, none with white
  space); the first token is the destination, and the second token without its first and
  last character is the source, so \<^verbatim>\<open>content/foo/bar.js (./foo/bar.js)\<close> gives
  \<^verbatim>\<open>content/foo/bar.js\<close> and \<^verbatim>\<open>./foo/bar.js\<close>. (An applied line of a single token has no
  second token, and the script throws on it.)
\<close>

theorem manifest_parsing:
  "jarLineTokens ''content/foo/bar.js (./foo/bar.js)'' = Inr (''content/foo/bar.js'', ''./foo/bar.js'')
   \<and> jarLines jarmn
       = concat (map (\<lambda>raw. if prefix ''content/'' (trim raw) \<and> suffix '')'' (trim raw) then [trim raw] else [])
                  (split_on CHR 0x0A jarmn))
   \<and> (\<forall>line \<in> set (jarLines jarmn).
         (\<forall>t \<in> set (split_ws line). t \<noteq> [] \<and> (\<forall>c \<in> set t. \<not> isWhiteSpace c))
         \<and> concat (split_ws line) = filter (\<lambda>c. \<not> isWhiteSpace c) line
         \<and> (\<forall>t0 t1 ts. split_ws line = t0 # t1 # ts
               \<longrightarrow> jarLineTokens line = Inr (t0, butlast (tl t1))
                   \<and> t0 = takeWhile (\<lambda>c. \<not> isWhiteSpace c) line)
         \<and> (\<forall>t0. split_ws line = [t0] \<longrightarrow> jarLineTokens line = Inl (TypeError ''tokens[1]'')))"
proof (intro conjI ballI allI impI)
  show "jarLineTokens ''content/foo/bar.js (./foo/bar.js)'' = Inr (''content/foo/bar.js'', ''./foo/bar.js'')"
    by code_simp
next
  have "filter P (map f xs) = concat (map (\<lambda>x. if P (f x) then [f x] else []) xs)"
    for P :: "string \<Rightarrow> bool" and f :: "string \<Rightarrow> string" and xs
    by (induction xs) auto
  then show "jarLines jarmn
       = concat (map (\<lambda>raw. if prefix ''content/'' (trim raw) \<and> suffix '')'' (trim raw) then [trim raw] else [])
                  (split_on CHR 0x0A jarmn))"
    by (simp add: jarLines_def startsWith_def endsWith_def)
next
  fix line t assume "line \<in> set (jarLines jarmn)" "t \<in> set (split_ws line)"
  then show "t \<noteq> []" using jarLines_trimmed split_ws_tokens by blast
next
  fix line t c assume "t \<in> set (split_ws line)" "c \<in> set t"
  then show "\<not> isWhiteSpace c" by (rule split_ws_no_space)
next
  fix line show "concat (split_ws line) = filter (\<lambda>c. \<not> isWhiteSpace c) line"
    by (rule split_ws_concat)
next
  fix line t0 t1 ts assume "split_ws line = t0 # t1 # ts"
  then show "jarLineTokens line = Inr (t0, butlast (tl t1))"
    by (simp add: jarLineTokens_def slice_strip)
next
  fix line t0 t1 ts assume "split_ws line = t0 # t1 # ts"
  then show "t0 = takeWhile (\<lambda>c. \<not> isWhiteSpace c) line"
    using split_ws_hd[of line] by simp
next
  fix line t0 assume "split_ws line = [t0]"
  then show "jarLineTokens line = Inl (TypeError ''tokens[1]'')"
    by (simp add: jarLineTokens_def)
qed

theorem manifest_parsing_witness:
  "jarLines sample_jarmn = [''content/foo/bar.js (./foo/bar.js)'', ''content/Helper.js  (Helper.js)'']
   \<and> jarLineTokens ''content/Helper.js  (Helper.js)'' = Inr (''content/Helper.js'', ''Helper.js'')"
proof -
  have j: "jarLines sample_jarmn = [''content/foo/bar.js (./foo/bar.js)'', ''content/Helper.js  (Helper.js)'']"
    by code_simp
  have m: "''content/Helper.js  (Helper.js)'' \<in> set (jarLines sample_jarmn)"
    by (simp add: j)
  have t: "split_ws ''content/Helper.js  (Helper.js)'' = ''content/Helper.js'' # ''(Helper.js)'' # []"
    by code_simp
  from manifest_parsing[of sample_jarmn] m t
  have "jarLineTokens ''content/Helper.js  (Helper.js)'' = Inr (''content/Helper.js'', butlast (tl ''(Helper.js)''))"
    by blast
  with j show ?thesis by simp
qed

section \<open>Sequencing and the trace\<close>

lemma andThen_Inl [simp]: "andThen (Inl e, s) f = (Inl e, s)"
  by (simp add: andThen_def)

lemma andThen_Inr [simp]: "andThen (Inr a, s) f = f a s"
  by (simp add: andThen_def)

lemma andThen_eq_Inr:
  "andThen r f = (Inr x, s') \<longleftrightarrow> (\<exists>a s1. r = (Inr a, s1) \<and> f a s1 = (Inr x, s'))"
  by (cases r; cases "fst r") (auto simp: andThen_def)
lemma emit_fs [simp]: "fs (emit e s) = fs s"
  by (simp add: emit_def)

lemma emit_events [simp]: "events (emit e s) = events s @ [e]"
  by (simp add: emit_def)

lemma andThen_fs:
  assumes "fs (snd r) = fs s" and "\<And>a s1. fs s1 = fs s \<Longrightarrow> fs (snd (f a s1)) = fs s"
  shows "fs (snd (andThen r f)) = fs s"
  using assms by (cases r; cases "fst r") (auto simp: andThen_def)

lemma child_process_execSync_fs: "fs (snd (child_process_execSync w cmd s)) = fs s"
  by (simp add: child_process_execSync_def split: option.splits)

lemma getHostPlatform_snd_fs: "fs (snd (getHostPlatform w s)) = fs s"
proof (cases "os_platform w = ''darwin''")
  case True
  show ?thesis
  proof (cases "execSync w ''sw_vers -productVersion''")
    case None
    with True show ?thesis
      by (simp add: getHostPlatform_def Let_def andThen_def child_process_execSync_def)
  next
    case (Some out)
    show ?thesis
    proof (cases "num_ge (case map parseInt (split_on CHR ''.'' (trim out)) of [] \<Rightarrow> Undefined | x # xs \<Rightarrow> x) 11")
      case False
      with True Some show ?thesis
        by (simp add: getHostPlatform_def Let_def andThen_def child_process_execSync_def)
    next
      case ge: True
      show ?thesis
      proof (cases "execSync w ''/usr/sbin/sysctl -in hw.optional.arm64''")
        case None
        with True Some ge show ?thesis
          by (simp add: getHostPlatform_def Let_def andThen_def child_process_execSync_def)
      next
        case probe: (Some out2)
        with True Some ge show ?thesis
          by (simp add: getHostPlatform_def Let_def andThen_def child_process_execSync_def)
      qed
    qed
  qed
next
  case False
  then show ?thesis by (simp add: getHostPlatform_def Let_def)
qed

lemma getHostPlatform_fs: "getHostPlatform w s = (r, s') \<Longrightarrow> fs s' = fs s"
  using getHostPlatform_snd_fs[of w s] by simp

lemma resolve_buildPlatform_fs: "resolve_buildPlatform w a s = (r, s') \<Longrightarrow> fs s' = fs s"
  by (auto simp: resolve_buildPlatform_def split: if_splits dest: getHostPlatform_fs)

lemma fs_readFile_cong: "fs s' = fs s \<Longrightarrow> fs_readFile p s' = fs_readFile p s"
  by (simp add: fs_readFile_def)

lemma currentBuildInfo_cong: "fs s' = fs s \<Longrightarrow> currentBuildInfo w s' = currentBuildInfo w s"
  by (simp add: currentBuildInfo_def fs_readFile_def)

lemma httpRequest_events:
  assumes "httpRequest w url method s = Some y"
  shows "fs (snd y) = fs s \<and> (\<exists>urls. events (snd y) = events s @ map (HttpRequest method) (url # urls))"
proof -
  let ?P = "\<lambda>(w::world) url method s (y :: (error + response) \<times> state).
      fs (snd y) = fs s \<and> (\<exists>urls. events (snd y) = events s @ map (HttpRequest method) (url # urls))"
  have step: "?P w url meth s y"
    if IH: "\<And>w url meth s y. f w url meth s = Some y \<Longrightarrow> ?P w url meth s y"
    and b: "(case net w url of
               None \<Rightarrow> Some (Inl (RequestError url), emit (HttpRequest meth url) s)
             | Some res \<Rightarrow>
                 if 300 \<le> statusCode res \<and> statusCode res < 400 \<and> truthy (location res)
                 then f w (case location res of None \<Rightarrow> [] | Some l \<Rightarrow> l) meth
                        (emit (HttpRequest meth url) s)
                 else Some (Inr res, emit (HttpRequest meth url) s)) = Some y"
    for f w url meth s y
  proof (cases "net w url")
    case None
    with b have "y = (Inl (RequestError url), emit (HttpRequest meth url) s)" by simp
    then have "fs (snd y) = fs s" "events (snd y) = events s @ map (HttpRequest meth) (url # [])"
      by simp_all
    then show ?thesis by blast
  next
    case (Some res)
    show ?thesis
    proof (cases "300 \<le> statusCode res \<and> statusCode res < 400 \<and> truthy (location res)")
      case True
      with Some b have "f w (case location res of None \<Rightarrow> [] | Some l \<Rightarrow> l) meth
          (emit (HttpRequest meth url) s) = Some y" by simp
      from IH[OF this] obtain urls where
        "fs (snd y) = fs s"
        "events (snd y) = events s @ map (HttpRequest meth) (url # (case location res of None \<Rightarrow> [] | Some l \<Rightarrow> l) # urls)"
        by auto
      then show ?thesis by blast
    next
      case False
      with Some b have "y = (Inr res, emit (HttpRequest meth url) s)" by auto
      then have "fs (snd y) = fs s" "events (snd y) = events s @ map (HttpRequest meth) (url # [])"
        by simp_all
      then show ?thesis by blast
    qed
  qed
  show ?thesis
    by (rule httpRequest.raw_induct[where P = ?P, OF step assms])
qed

lemma downloadFile_Inr:
  assumes "downloadFile w url dest s = Some (Inr u, s')"
  shows "\<exists>urls content. events s' = events s @ map (HttpRequest ''GET'') (url # urls) @ [CreateWriteStream dest]
           \<and> fs s' = (dest, File content) # fs s \<and> store_write dest content (fs s) = Some (fs s')"
proof -
  from assms obtain res s1 where h: "httpRequest w url ''GET'' s = Some (Inr res, s1)"
    and st: "statusCode res = 200"
    and c: "fs_createWriteStream dest (body res) s1 = (Inr u, s')"
    by (auto simp: downloadFile_def split: option.splits sum.splits prod.splits if_splits)
  from httpRequest_events[OF h] obtain urls where e: "fs s1 = fs s"
      "events s1 = events s @ map (HttpRequest ''GET'') (url # urls)" by auto
  from c obtain st' where w: "store_write dest (body res) (fs s1) = Some st'"
      and s': "s' = (emit (CreateWriteStream dest) s1)\<lparr>fs := st'\<rparr>"
    by (auto simp: fs_createWriteStream_def Let_def split: option.splits)
  from w have "st' = (dest, File (body res)) # fs s1"
    by (auto simp: store_write_def split: if_splits)
  with e w s' show ?thesis by auto
qed

lemma downloadFile_events:
  assumes "downloadFile w url dest s = Some (r, s')"
  shows "\<exists>rest. events s' = events s @ HttpRequest ''GET'' url # rest"
proof -
  from assms obtain r1 s1 where h: "httpRequest w url ''GET'' s = Some (r1, s1)"
    by (auto simp: downloadFile_def split: option.splits)
  from httpRequest_events[OF h] obtain urls where e:
      "events s1 = events s @ map (HttpRequest ''GET'') (url # urls)" by auto
  from assms h have "s' = s1 \<or> s' = emit ResponseResume s1
      \<or> (\<exists>st. s' = (emit (CreateWriteStream dest) s1)\<lparr>fs := st\<rparr>) \<or> s' = emit (CreateWriteStream dest) s1"
    by (auto simp: downloadFile_def fs_createWriteStream_def Let_def
        split: option.splits sum.splits prod.splits if_splits)
  with e show ?thesis by auto
qed

lemma fs_rm_recursive_events: "events (snd (fs_rm_recursive p s)) = events s @ [Rm p]"
  by (simp add: fs_rm_recursive_def Let_def)

lemma fs_mkdir_events: "fs_mkdir p s = (r, s') \<Longrightarrow> events s' = events s @ [Mkdir p]"
  by (auto simp: fs_mkdir_def Let_def split: if_splits)

lemma extractAllTo_events:
  "extractAllTo z t ow kp s = (r, s') \<Longrightarrow> events s' = events s @ [ExtractAllTo (zipFile z) t ow kp]"
  by (auto simp: extractAllTo_def Let_def split: prod.splits bool.splits if_splits)

lemma fs_writeFile_events: "fs_writeFile p c s = (r, s') \<Longrightarrow> events s' = events s @ [WriteFile p]"
  by (auto simp: fs_writeFile_def Let_def split: option.splits)

lemma fs_writeFile_Inr:
  assumes "fs_writeFile p c s = (Inr u, s')"
  shows "fs_readFile p s' = Inr c \<and> fs s' = (p, File c) # fs s"
proof -
  from assms obtain st where w: "store_write p c (fs s) = Some st" and s': "fs s' = st"
    by (auto simp: fs_writeFile_def Let_def split: option.splits)
  from store_write_Some[OF w] store_write_lookup[OF w] s' show ?thesis
    by (simp add: fs_readFile_def)
qed

lemma path_join_plain:
  assumes "split_on CHR ''/'' rel = [rel]" and "rel \<noteq> []" and "rel \<noteq> ''.''" and "rel \<noteq> ''..''"
    and "last rel \<noteq> CHR ''/''"
  shows "path_join base rel = strip_slash base @ [rel]"
  using assms by (simp add: path_join_def Let_def)

lemma BUILD_DIRECTORY_proper: "BUILD_DIRECTORY w \<noteq> [] \<and> last (BUILD_DIRECTORY w) \<noteq> []"
proof -
  have "split_on CHR ''/'' ''__repackaged_firefox__'' = [''__repackaged_firefox__'']" by code_simp
  then have "path_join (dirname w) ''__repackaged_firefox__''
      = strip_slash (dirname w) @ [''__repackaged_firefox__'']"
    by (rule path_join_plain) simp_all
  then show ?thesis by (simp add: BUILD_DIRECTORY_def)
qed

lemma strip_slash_BUILD_DIRECTORY [simp]: "strip_slash (BUILD_DIRECTORY w) = BUILD_DIRECTORY w"
  using BUILD_DIRECTORY_proper[of w] by (simp add: strip_slash_proper)

lemma wipe_events:
  assumes "fs_mkdir p (snd (fs_rm_recursive p s)) = (r2, s2)"
  shows "events s2 = events s @ [Rm p, Mkdir p]"
  using fs_mkdir_events[OF assms] by (simp add: fs_rm_recursive_events)

lemma wipe_files:
  assumes "fs_mkdir p (snd (fs_rm_recursive p s)) = (Inr u, s2)"
    and "lookup (fs s) p \<noteq> None" and "prefix (strip_slash p) q"
  shows "file_at (fs s2) q = None"
proof -
  from assms(2) have "fs (snd (fs_rm_recursive p s)) = store_rm (strip_slash p) (fs s)"
    by (auto simp: fs_rm_recursive_def Let_def)
  with assms(1) have "fs s2 = (strip_slash p, Dir) # store_rm (strip_slash p) (fs s)"
    by (auto simp: fs_mkdir_def Let_def split: if_splits)
  with assms(3) show ?thesis by (simp add: file_at_Cons_Dir file_at_store_rm)
qed

lemma stage_build_cases:
  assumes "fs_mkdir (BUILD_DIRECTORY w) (snd (fs_rm_recursive (BUILD_DIRECTORY w) s)) = (r2, s2)"
  shows "stage_build w b n p s
       = (case r2 of
            Inl e \<Rightarrow> Some (Inl e, s2)
          | Inr u \<Rightarrow>
              if \<not> property_truthy (object_get (DOWNLOAD_URLS b) p)
              then Some (Inl (Error (''ERROR: repack-juggler does not support '' @ p)), s2)
              else download_and_extract w b n p (format_property (object_get (DOWNLOAD_URLS b) p) n) s2)"
  using assms by (simp add: stage_build_def Let_def split: sum.splits)

lemma download_and_extract_succeeds:
  assumes ch: "redirect_chain w url hops final"
    and nf: "net w final = Some res"
    and ok: "statusCode res = 200"
    and w3: "store_write (BUILD_DIRECTORY w @ [''firefox.zip'']) (body res) (fs s2) = Some st3"
    and zr: "zip_read w (body res) = Some entries"
    and ex: "extract_entries (BUILD_DIRECTORY w) False entries st3 = (True, st4)"
    and w5: "store_write (BUILD_INFO_PATH w) (JSON_stringify w (buildInfo_object n p (name_of b))) st4 = Some st5"
  shows "download_and_extract w b n p url s2
       = Some (Inr (buildInfo_object n p (name_of b)),
               s2\<lparr>fs := st5,
                  events := events s2 @ map (HttpRequest ''GET'') (url # hops)
                    @ [CreateWriteStream (BUILD_DIRECTORY w @ [''firefox.zip'']),
                       ExtractAllTo (BUILD_DIRECTORY w @ [''firefox.zip'']) (BUILD_DIRECTORY w) False True,
                       WriteFile (BUILD_INFO_PATH w)]\<rparr>)"
proof -
  let ?B = "BUILD_DIRECTORY w"
  let ?Z = "?B @ [''firefox.zip'']"
  have nr: "\<not> (300 \<le> statusCode res \<and> statusCode res < 400 \<and> truthy (location res))"
    using ok by simp
  let ?s2' = "s2\<lparr>events := events s2 @ map (HttpRequest ''GET'') (url # hops)\<rparr>"
  have h: "httpRequest w url ''GET'' s2 = Some (Inr res, ?s2')"
    by (rule httpRequest_chain[OF ch nf nr])
  let ?s3 = "(emit (CreateWriteStream ?Z) ?s2')\<lparr>fs := st3\<rparr>"
  have d: "downloadFile w url ?Z s2 = Some (Inr (), ?s3)"
    using ok w3 by (simp add: downloadFile_def h fs_createWriteStream_def Let_def)
  have "lookup st3 ?Z = Some (File (body res))" using w3 by (rule store_write_lookup)
  then have z: "AdmZip w ?Z ?s3 = Inr \<lparr>zipFile = ?Z, getEntries = entries\<rparr>"
    using zr by (simp add: AdmZip_def fs_readFile_def)
  let ?s4 = "(emit (ExtractAllTo ?Z ?B False True) ?s3)\<lparr>fs := st4\<rparr>"
  have x: "extractAllTo \<lparr>zipFile = ?Z, getEntries = entries\<rparr> ?B False True ?s3 = (Inr (), ?s4)"
    using ex by (simp add: extractAllTo_def Let_def)
  let ?s5 = "(emit (WriteFile (BUILD_INFO_PATH w)) ?s4)\<lparr>fs := st5\<rparr>"
  have wr: "fs_writeFile (BUILD_INFO_PATH w) (JSON_stringify w (buildInfo_object n p (name_of b))) ?s4 = (Inr (), ?s5)"
    using w5 by (simp add: fs_writeFile_def Let_def)
  have "download_and_extract w b n p url s2 = Some (Inr (buildInfo_object n p (name_of b)), ?s5)"
    unfolding download_and_extract_def
    by (simp only: d z x wr prod.case sum.case option.case andThen_Inr)
  moreover have "?s5 = s2\<lparr>fs := st5,
                  events := events s2 @ map (HttpRequest ''GET'') (url # hops)
                    @ [CreateWriteStream ?Z, ExtractAllTo ?Z ?B False True, WriteFile (BUILD_INFO_PATH w)]\<rparr>"
    by (simp add: emit_def)
  ultimately show ?thesis by simp
qed

lemma download_and_extract_Inr:
  assumes "download_and_extract w b n p url s2 = Some (Inr d, s')"
  shows "d = buildInfo_object n p (name_of b)
       \<and> fs_readFile (BUILD_INFO_PATH w) s' = Inr (JSON_stringify w d)
       \<and> (\<exists>more. events s' = events s2 @ map (HttpRequest ''GET'') (url # more)
                 @ [CreateWriteStream (BUILD_DIRECTORY w @ [''firefox.zip'']),
                    ExtractAllTo (BUILD_DIRECTORY w @ [''firefox.zip'']) (BUILD_DIRECTORY w) False True,
                    WriteFile (BUILD_INFO_PATH w)])"
proof -
  let ?B = "BUILD_DIRECTORY w"
  let ?Z = "?B @ [''firefox.zip'']"
  from assms obtain u3 s3 where d: "downloadFile w url ?Z s2 = Some (Inr u3, s3)"
    by (auto simp: download_and_extract_def split: option.splits sum.splits prod.splits)
  from assms d obtain es where z: "AdmZip w ?Z s3 = Inr es"
    by (auto simp: download_and_extract_def split: sum.splits)
  from z have zf: "zipFile es = ?Z" by (auto simp: AdmZip_def split: sum.splits option.splits)
  from assms d z obtain u4 s4 where x: "extractAllTo es ?B False True s3 = (Inr u4, s4)"
    and wr: "fs_writeFile (BUILD_INFO_PATH w) (JSON_stringify w (buildInfo_object n p (name_of b))) s4 = (Inr (), s')"
    and dd: "d = buildInfo_object n p (name_of b)"
    by (auto simp: download_and_extract_def andThen_eq_Inr)
  from downloadFile_Inr[OF d] obtain more where
    e3: "events s3 = events s2 @ map (HttpRequest ''GET'') (url # more) @ [CreateWriteStream ?Z]"
    by auto
  from extractAllTo_events[OF x] zf have e4: "events s4 = events s3 @ [ExtractAllTo ?Z ?B False True]"
    by simp
  from fs_writeFile_events[OF wr] have e5: "events s' = events s4 @ [WriteFile (BUILD_INFO_PATH w)]" .
  from fs_writeFile_Inr[OF wr] dd have r: "fs_readFile (BUILD_INFO_PATH w) s' = Inr (JSON_stringify w d)"
    by simp
  from e3 e4 e5 have "events s' = events s2 @ map (HttpRequest ''GET'') (url # more)
                 @ [CreateWriteStream ?Z, ExtractAllTo ?Z ?B False True, WriteFile (BUILD_INFO_PATH w)]"
    by simp
  with dd r show ?thesis by blast
qed

lemma download_and_extract_events:
  assumes "download_and_extract w b n p url s2 = Some (r, s')"
  shows "\<exists>rest. events s' = events s2 @ HttpRequest ''GET'' url # rest"
proof -
  let ?B = "BUILD_DIRECTORY w"
  let ?Z = "?B @ [''firefox.zip'']"
  from assms obtain r3 s3 where d: "downloadFile w url ?Z s2 = Some (r3, s3)"
    by (auto simp: download_and_extract_def split: option.splits)
  from downloadFile_events[OF d] obtain rest3 where e3: "events s3 = events s2 @ HttpRequest ''GET'' url # rest3"
    by auto
  have "\<exists>rest4. events s' = events s3 @ rest4"
  proof (cases r3)
    case (Inl e)
    with assms d have "s' = s3" by (simp add: download_and_extract_def)
    then show ?thesis by simp
  next
    case (Inr u3)
    show ?thesis
    proof (cases "AdmZip w ?Z s3")
      case (Inl e)
      with assms d Inr have "s' = s3" by (simp add: download_and_extract_def)
      then show ?thesis by simp
    next
      case z: (Inr es)
      obtain r4 s4 where x: "extractAllTo es ?B False True s3 = (r4, s4)"
        by (cases "extractAllTo es ?B False True s3")
      from extractAllTo_events[OF x] have e4: "events s4 = events s3 @ [ExtractAllTo (zipFile es) ?B False True]" .
      show ?thesis
      proof (cases r4)
        case (Inl e)
        with assms d Inr z x have "s' = s4" by (simp add: download_and_extract_def)
        with e4 show ?thesis by simp
      next
        case r4: (Inr u4)
        obtain r5 s5 where wr: "fs_writeFile (BUILD_INFO_PATH w)
            (JSON_stringify w (buildInfo_object n p (name_of b))) s4 = (r5, s5)"
          by (cases "fs_writeFile (BUILD_INFO_PATH w) (JSON_stringify w (buildInfo_object n p (name_of b))) s4")
        from assms d Inr z x r4 wr have "s' = s5" by (cases r5) (auto simp: download_and_extract_def)
        with fs_writeFile_events[OF wr] e4 show ?thesis by simp
      qed
    qed
  qed
  with e3 show ?thesis by auto
qed

lemma download_and_extract_None:
  "download_and_extract w b n p url s2 = None
     \<longleftrightarrow> httpRequest w url ''GET'' s2 = None"
  by (auto simp: download_and_extract_def downloadFile_def split: option.splits sum.splits prod.splits)

section \<open>Properties of the search for the archive\<close>

lemma omniWithJuggler_first:
  "list_all (lacks_juggler w s) before \<Longrightarrow> holds_juggler w s p
     \<Longrightarrow> omniWithJuggler w (before @ p # after) s = Inr (Some p)"
  by (induction before)
     (auto simp: lacks_juggler_def holds_juggler_def String_includes_def ZipEntry_toString_def
           split: sum.splits)

lemma omniWithJuggler_none:
  "list_all (lacks_juggler w s) ps \<Longrightarrow> omniWithJuggler w ps s = Inr None"
  by (induction ps)
     (auto simp: lacks_juggler_def String_includes_def ZipEntry_toString_def split: sum.splits)

lemma omniWithJuggler_Some:
  "omniWithJuggler w ps s = Inr (Some p)
     \<Longrightarrow> \<exists>before after. ps = before @ p # after \<and> list_all (lacks_juggler w s) before \<and> holds_juggler w s p"
proof (induction ps)
  case Nil
  then show ?case by simp
next
  case (Cons q ps)
  show ?case
  proof (cases "holds_juggler w s q")
    case True
    with Cons.prems have "q = p"
      by (auto simp: holds_juggler_def String_includes_def ZipEntry_toString_def split: sum.splits)
    with True have "q # ps = [] @ p # ps \<and> list_all (lacks_juggler w s) [] \<and> holds_juggler w s p"
      by simp
    then show ?thesis by blast
  next
    case False
    with Cons.prems have l: "lacks_juggler w s q" and r: "omniWithJuggler w ps s = Inr (Some p)"
      by (auto simp: holds_juggler_def lacks_juggler_def String_includes_def ZipEntry_toString_def
          split: sum.splits if_splits)
    from Cons.IH[OF r] obtain before after
      where "ps = before @ p # after" "list_all (lacks_juggler w s) before" "holds_juggler w s p"
      by blast
    with l have "q # ps = (q # before) @ p # after \<and> list_all (lacks_juggler w s) (q # before)
        \<and> holds_juggler w s p" by simp
    then show ?thesis by blast
  qed
qed

lemma omniWithJuggler_None:
  "omniWithJuggler w ps s = Inr None \<Longrightarrow> list_all (lacks_juggler w s) ps"
  by (induction ps)
     (auto simp: lacks_juggler_def String_includes_def ZipEntry_toString_def split: sum.splits if_splits)

lemma collect_Inr:
  "collect rs = Inr xs \<Longrightarrow> x \<in> set xs \<Longrightarrow> \<exists>r ys. r \<in> set rs \<and> r = Inr ys \<and> x \<in> set ys"
proof (induction rs arbitrary: xs)
  case Nil
  then show ?case by (simp add: collect_def)
next
  case (Cons r rs)
  from Cons.prems(1) obtain ys zs where r: "r = Inr ys" and c: "collect rs = Inr zs" and xs: "xs = ys @ zs"
    by (auto simp: collect_def split: sum.splits)
  from Cons.prems(2) xs have "x \<in> set ys \<or> x \<in> set zs" by simp
  then show ?case
  proof
    assume "x \<in> set ys"
    with r show ?thesis by auto
  next
    assume "x \<in> set zs"
    from Cons.IH[OF c this] show ?thesis by auto
  qed
qed

lemma walkFiles_files:
  "walkFiles st aPath = Inr files \<Longrightarrow> f \<in> set files \<Longrightarrow> isFile (lookup st f) \<and> prefix aPath f"
proof (induction st aPath arbitrary: files rule: walkFiles.induct)
  case (1 st aPath)
  show ?case
  proof (cases "lookup st aPath")
    case None
    with "1.prems" show ?thesis by (simp add: walkFiles.simps[of st aPath])
  next
    case (Some n)
    show ?thesis
    proof (cases n)
      case (File c)
      with Some "1.prems" show ?thesis by (auto simp: walkFiles.simps[of st aPath])
    next
      case Dir
      with Some "1.prems"(1)
      have c: "collect (map (\<lambda>entry. walkFiles st (aPath @ [entry])) (readdir st aPath)) = Inr files"
        by (simp add: walkFiles.simps[of st aPath])
      from collect_Inr[OF c "1.prems"(2)] obtain entry ys
        where e: "entry \<in> set (readdir st aPath)" "walkFiles st (aPath @ [entry]) = Inr ys" "f \<in> set ys"
        by auto
      from "1.IH"[OF Some Dir e(1) e(2) e(3)] show ?thesis
        by (auto dest: append_prefixD)
    qed
  qed
qed

lemma suffix_path_string:
  assumes "p \<noteq> []" "CHR ''/'' \<notin> set x" "suffix x (path_string p)"
  shows "suffix x (last p)"
proof -
  from assms(1) obtain q l where p: "p = q @ [l]" by (cases p rule: rev_cases) auto
  then have ps: "path_string p = (concat (map (\<lambda>seg. CHR ''/'' # seg) q) @ ''/'') @ l"
    by (simp add: path_string_def)
  from assms(3) ps have "suffix x ((concat (map (\<lambda>seg. CHR ''/'' # seg) q) @ ''/'') @ l)"
    by simp
  then have "suffix x l \<or> (\<exists>x'. suffix x' (concat (map (\<lambda>seg. CHR ''/'' # seg) q) @ ''/'') \<and> x = x' @ l)"
    unfolding suffix_append[of x "concat (map (\<lambda>seg. CHR ''/'' # seg) q) @ ''/''" l] by blast
  then show ?thesis
  proof
    assume "suffix x l" with p show ?thesis by simp
  next
    assume "\<exists>x'. suffix x' (concat (map (\<lambda>seg. CHR ''/'' # seg) q) @ ''/'') \<and> x = x' @ l"
    then obtain x' where x': "suffix x' (concat (map (\<lambda>seg. CHR ''/'' # seg) q) @ ''/'')" "x = x' @ l"
      by blast
    have "x' = []"
    proof (rule ccontr)
      assume "x' \<noteq> []"
      with x'(1) have "last x' = CHR ''/''"
        by (metis last_snoc last_appendR suffix_def)
      with \<open>x' \<noteq> []\<close> have "CHR ''/'' \<in> set x'" using last_in_set by metis
      with x'(2) assms(2) show False by simp
    qed
    with x'(2) p show ?thesis by simp
  qed
qed

lemma listFiles_files:
  assumes "listFiles w st aPath = Inr files" and "f \<in> set files"
  shows "isFile (lookup st f) \<and> prefix aPath f"
proof -
  from assms(1) obtain walk where wk: "walkFiles st aPath = Inr walk"
    and fl: "files = sort_key (lstat_latency w) walk"
    by (auto simp: listFiles_def split: sum.splits)
  from assms(2) fl have "f \<in> set walk" by simp
  with wk show ?thesis by (rule walkFiles_files)
qed

lemma listFiles_sorted:
  assumes "listFiles w st aPath = Inr files"
  shows "sorted (map (lstat_latency w) files)"
  using assms by (auto simp: listFiles_def split: sum.splits)

lemma omniWithJuggler_unreadable:
  "list_all (lacks_juggler w s) before \<Longrightarrow> AdmZip w p s = Inl e
     \<Longrightarrow> omniWithJuggler w (before @ p # after) s = Inl e"
  by (induction before)
     (auto simp: lacks_juggler_def String_includes_def ZipEntry_toString_def split: sum.splits)

text \<open>
  C8. The candidates are the files below the build directory whose name ends with
  \<^verbatim>\<open>omni.ja\<close>, in the order in which \<^verbatim>\<open>listFiles\<close> has pushed them: the order in which
  their \<^verbatim>\<open>lstat\<close> calls completed. When the candidates before some candidate are archives
  without Juggler and that candidate holds Juggler, \<^verbatim>\<open>repackageJuggler\<close> goes on with that
  candidate as the archive to repack; whatever the search returns is such a first candidate;
  when every candidate is an archive without Juggler, the script exits with status 1, the
  state untouched; and when the first candidate that is not an archive without Juggler cannot
  be opened as an archive, the error of \<^verbatim>\<open>new AdmZip\<close> is thrown.
\<close>

theorem repackageJuggler_selects_first:
  assumes "get_property buildInfo ''buildPlatform'' = Inr buildPlatform"
    and "listFiles w (fs s) (BUILD_DIRECTORY w) = Inr files"
  shows "(\<forall>before p after.
            filter (\<lambda>filePath. endsWith (path_string filePath) ''omni.ja'') files = before @ p # after
            \<and> list_all (lacks_juggler w s) before \<and> holds_juggler w s p
            \<longrightarrow> repackageJuggler w browserName buildInfo s = repackOmni w browserName buildPlatform p s)
       \<and> (list_all (lacks_juggler w s) (filter (\<lambda>filePath. endsWith (path_string filePath) ''omni.ja'') files)
            \<longrightarrow> repackageJuggler w browserName buildInfo s = (Inl (ProcessExit 1), s))
       \<and> (\<forall>before p after e.
            filter (\<lambda>filePath. endsWith (path_string filePath) ''omni.ja'') files = before @ p # after
            \<and> list_all (lacks_juggler w s) before \<and> AdmZip w p s = Inl e
            \<longrightarrow> repackageJuggler w browserName buildInfo s = (Inl e, s))
       \<and> (\<forall>p. omniWithJuggler w (filter (\<lambda>filePath. endsWith (path_string filePath) ''omni.ja'') files) s
                 = Inr (Some p)
            \<longrightarrow> (\<exists>before after.
                   filter (\<lambda>filePath. endsWith (path_string filePath) ''omni.ja'') files = before @ p # after
                   \<and> list_all (lacks_juggler w s) before \<and> holds_juggler w s p))
       \<and> (\<forall>f \<in> set (filter (\<lambda>filePath. endsWith (path_string filePath) ''omni.ja'') files).
            isFile (lookup (fs s) f) \<and> prefix (BUILD_DIRECTORY w) f \<and> (f \<noteq> [] \<longrightarrow> suffix ''omni.ja'' (last f)))
       \<and> sorted (map (lstat_latency w) files)
       \<and> (\<forall>walk. walkFiles (fs s) (BUILD_DIRECTORY w) = Inr walk \<longrightarrow> set files = set walk)"
proof (intro conjI allI impI ballI)
  fix before p after
  assume "filter (\<lambda>filePath. endsWith (path_string filePath) ''omni.ja'') files = before @ p # after
            \<and> list_all (lacks_juggler w s) before \<and> holds_juggler w s p"
  then show "repackageJuggler w browserName buildInfo s = repackOmni w browserName buildPlatform p s"
    using assms by (simp add: repackageJuggler_def omniWithJuggler_first)
next
  assume "list_all (lacks_juggler w s) (filter (\<lambda>filePath. endsWith (path_string filePath) ''omni.ja'') files)"
  then show "repackageJuggler w browserName buildInfo s = (Inl (ProcessExit 1), s)"
    using assms by (simp add: repackageJuggler_def omniWithJuggler_none)
next
  fix before p after e
  assume "filter (\<lambda>filePath. endsWith (path_string filePath) ''omni.ja'') files = before @ p # after
            \<and> list_all (lacks_juggler w s) before \<and> AdmZip w p s = Inl e"
  then show "repackageJuggler w browserName buildInfo s = (Inl e, s)"
    using assms by (simp add: repackageJuggler_def omniWithJuggler_unreadable)
next
  fix p
  assume "omniWithJuggler w (filter (\<lambda>filePath. endsWith (path_string filePath) ''omni.ja'') files) s
                 = Inr (Some p)"
  then show "\<exists>before after.
                   filter (\<lambda>filePath. endsWith (path_string filePath) ''omni.ja'') files = before @ p # after
                   \<and> list_all (lacks_juggler w s) before \<and> holds_juggler w s p"
    by (rule omniWithJuggler_Some)
next
  fix f assume f: "f \<in> set (filter (\<lambda>filePath. endsWith (path_string filePath) ''omni.ja'') files)"
  then show "isFile (lookup (fs s) f)" using listFiles_files[OF assms(2)] by simp
  from f show "prefix (BUILD_DIRECTORY w) f" using listFiles_files[OF assms(2)] by simp
  assume "f \<noteq> []"
  moreover have "CHR ''/'' \<notin> set ''omni.ja''" by simp
  moreover from f have "suffix ''omni.ja'' (path_string f)" by (simp add: endsWith_def)
  ultimately show "suffix ''omni.ja'' (last f)" by (rule suffix_path_string)
next
  show "sorted (map (lstat_latency w) files)" using assms(2) by (rule listFiles_sorted)
next
  fix walk assume "walkFiles (fs s) (BUILD_DIRECTORY w) = Inr walk"
  with assms(2) show "set files = set walk" by (auto simp: listFiles_def)
qed

theorem repackageJuggler_selects_first_witness:
  "repackageJuggler linux_world Firefox (buildInfo_object ''1234'' ''ubuntu20.04'' ''firefox'') three_archives_state
     = repackOmni linux_world Firefox (Some (JStr ''ubuntu20.04''))
         [''tmp'', ''repackaged-firefox'', ''b'', ''omni.ja''] three_archives_state
   \<and> repackageJuggler linux_world Firefox (buildInfo_object ''1234'' ''ubuntu20.04'' ''firefox'') unbaked_state
     = (Inl (ProcessExit 1), unbaked_state)"
proof -
  let ?a = "[''tmp'', ''repackaged-firefox'', ''a'', ''omni.ja'']"
  let ?as = "[''tmp'', ''repackaged-firefox'', ''a'', ''sub'', ''omni.ja'']"
  let ?b = "[''tmp'', ''repackaged-firefox'', ''b'', ''omni.ja'']"
  let ?f1 = "[''tmp'', ''repackaged-firefox'', ''firefox'', ''firefox'']"
  let ?f2 = "[''tmp'', ''repackaged-firefox'', ''firefox'', ''browser'', ''omni.ja'']"
  have g: "get_property (buildInfo_object ''1234'' ''ubuntu20.04'' ''firefox'') ''buildPlatform''
      = Inr (Some (JStr ''ubuntu20.04''))"
    by (simp add: buildInfo_object_def)
  have l: "listFiles linux_world (fs three_archives_state) (BUILD_DIRECTORY linux_world) = Inr [?a, ?b, ?as]"
    by code_simp
  have c: "filter (\<lambda>filePath. endsWith (path_string filePath) ''omni.ja'') [?a, ?b, ?as] = [?a] @ ?b # [?as]"
    by code_simp
  have k: "list_all (lacks_juggler linux_world three_archives_state) [?a]" by code_simp
  have h: "holds_juggler linux_world three_archives_state ?b" by code_simp
  have l': "listFiles linux_world (fs unbaked_state) (BUILD_DIRECTORY linux_world) = Inr [?f1, ?f2]"
    by code_simp
  have c': "filter (\<lambda>filePath. endsWith (path_string filePath) ''omni.ja'') [?f1, ?f2] = [?f2]"
    by code_simp
  have k': "list_all (lacks_juggler linux_world unbaked_state) [?f2]" by code_simp
  from repackageJuggler_selects_first[OF g l, of Firefox] c k h
  have a: "repackageJuggler linux_world Firefox (buildInfo_object ''1234'' ''ubuntu20.04'' ''firefox'') three_archives_state
     = repackOmni linux_world Firefox (Some (JStr ''ubuntu20.04'')) ?b three_archives_state"
    by blast
  from repackageJuggler_selects_first[OF g l', of Firefox] c' k'
  have b: "repackageJuggler linux_world Firefox (buildInfo_object ''1234'' ''ubuntu20.04'' ''firefox'') unbaked_state
     = (Inl (ProcessExit 1), unbaked_state)"
    by simp
  from a b show ?thesis by simp
qed

section \<open>Properties of the build cache\<close>

lemma get_property_Inl: "get_property v k = Inl e \<Longrightarrow> v = JNull"
  by (cases v) auto

lemma get_property_JNull: "v \<noteq> JNull \<Longrightarrow> \<exists>x. get_property v k = Inr x"
  by (cases v) auto

lemma descriptor_matches_buildInfo_object:
  "descriptor_matches (buildInfo_object n p b) p n b"
  by (simp add: descriptor_matches_def buildInfo_object_def)

lemma descriptor_matches_not_null: "descriptor_matches v p n b \<Longrightarrow> v \<noteq> JNull"
  by (auto simp: descriptor_matches_def)

lemma name_of_not_Nil: "name_of b \<noteq> []"
  by (cases b) simp_all

lemma default_descriptor_no_match:
  assumes "b \<noteq> []"
  shows "\<not> descriptor_matches
           (JObj [(''buildPlatform'', JStr []), (''buildNumber'', JStr []), (''browserName'', JStr [])]) p n b"
  using assms by (auto simp: descriptor_matches_def)

lemma ensureFirefoxBuild_hit:
  assumes "resolve_buildNumber w b a3 s = Inr n" and "resolve_buildPlatform w a4 s = (Inr p, s1)"
    and "descriptor_matches (currentBuildInfo w s1) p n (name_of b)"
  shows "ensureFirefoxBuild w b a3 a4 s = Some (Inr (currentBuildInfo w s1), s1)"
proof -
  from assms(3) have "currentBuildInfo w s1 \<noteq> JNull" by (rule descriptor_matches_not_null)
  then obtain x where "get_property (currentBuildInfo w s1) ''buildPlatform'' = Inr x"
    using get_property_JNull by blast
  with assms show ?thesis by (simp add: ensureFirefoxBuild_def)
qed

lemma ensureFirefoxBuild_miss:
  assumes "resolve_buildNumber w b a3 s = Inr n" and "resolve_buildPlatform w a4 s = (Inr p, s1)"
    and "\<not> descriptor_matches (currentBuildInfo w s1) p n (name_of b)"
    and "currentBuildInfo w s1 \<noteq> JNull"
  shows "ensureFirefoxBuild w b a3 a4 s = stage_build w b n p s1"
proof -
  from assms(4) obtain x where "get_property (currentBuildInfo w s1) ''buildPlatform'' = Inr x"
    using get_property_JNull by blast
  with assms show ?thesis by (simp add: ensureFirefoxBuild_def)
qed

lemma ensureFirefoxBuild_null:
  assumes "resolve_buildNumber w b a3 s = Inr n" and "resolve_buildPlatform w a4 s = (Inr p, s1)"
    and "currentBuildInfo w s1 = JNull"
  shows "ensureFirefoxBuild w b a3 a4 s = Some (Inl (TypeError ''buildPlatform''), s1)"
  using assms by (simp add: ensureFirefoxBuild_def)

lemma ensureFirefoxBuild_mismatch:
  assumes n: "resolve_buildNumber w b a3 s = Inr n"
    and p: "resolve_buildPlatform w a4 s = (Inr p, s1)"
    and nm: "\<not> descriptor_matches (currentBuildInfo w s1) p n (name_of b)"
    and nn: "currentBuildInfo w s1 \<noteq> JNull"
    and mk: "fs_mkdir (BUILD_DIRECTORY w) (snd (fs_rm_recursive (BUILD_DIRECTORY w) s1)) = (r2, s2)"
  shows "events s2 = events s1 @ [Rm (BUILD_DIRECTORY w), Mkdir (BUILD_DIRECTORY w)]"
    and "lookup (fs s1) (BUILD_DIRECTORY w) \<noteq> None \<and> r2 = Inr ()
           \<longrightarrow> (\<forall>q. prefix (BUILD_DIRECTORY w) q \<longrightarrow> file_at (fs s2) q = None)"
    and "\<forall>e. r2 = Inl e \<longrightarrow> ensureFirefoxBuild w b a3 a4 s = Some (Inl e, s2)"
    and "r2 = Inr () \<and> \<not> property_truthy (object_get (DOWNLOAD_URLS b) p)
           \<longrightarrow> ensureFirefoxBuild w b a3 a4 s
                 = Some (Inl (Error (''ERROR: repack-juggler does not support '' @ p)), s2)"
    and "r2 = Inr () \<and> property_truthy (object_get (DOWNLOAD_URLS b) p)
           \<longrightarrow> ensureFirefoxBuild w b a3 a4 s
                 = download_and_extract w b n p (format_property (object_get (DOWNLOAD_URLS b) p) n) s2"
    and "\<forall>hops final res st3 entries st4 st5.
           r2 = Inr () \<and> property_truthy (object_get (DOWNLOAD_URLS b) p)
           \<and> redirect_chain w (format_property (object_get (DOWNLOAD_URLS b) p) n) hops final
           \<and> net w final = Some res \<and> statusCode res = 200
           \<and> store_write (BUILD_DIRECTORY w @ [''firefox.zip'']) (body res) (fs s2) = Some st3
           \<and> zip_read w (body res) = Some entries
           \<and> extract_entries (BUILD_DIRECTORY w) False entries st3 = (True, st4)
           \<and> store_write (BUILD_INFO_PATH w) (JSON_stringify w (buildInfo_object n p (name_of b))) st4 = Some st5
           \<longrightarrow> ensureFirefoxBuild w b a3 a4 s
                 = Some (Inr (buildInfo_object n p (name_of b)),
                         s2\<lparr>fs := st5,
                            events := events s1 @ [Rm (BUILD_DIRECTORY w), Mkdir (BUILD_DIRECTORY w)]
                              @ map (HttpRequest ''GET'') (format_property (object_get (DOWNLOAD_URLS b) p) n # hops)
                              @ [CreateWriteStream (BUILD_DIRECTORY w @ [''firefox.zip'']),
                                 ExtractAllTo (BUILD_DIRECTORY w @ [''firefox.zip'']) (BUILD_DIRECTORY w) False True,
                                 WriteFile (BUILD_INFO_PATH w)]\<rparr>)"
    and "\<forall>r s'. ensureFirefoxBuild w b a3 a4 s = Some (r, s')
           \<longrightarrow> (\<exists>rest. events s' = events s1 @ Rm (BUILD_DIRECTORY w) # Mkdir (BUILD_DIRECTORY w) # rest)"
    and "ensureFirefoxBuild w b a3 a4 s = None
           \<longrightarrow> r2 = Inr () \<and> property_truthy (object_get (DOWNLOAD_URLS b) p)
               \<and> httpRequest w (format_property (object_get (DOWNLOAD_URLS b) p) n) ''GET'' s2 = None"
    and "\<forall>d s'. ensureFirefoxBuild w b a3 a4 s = Some (Inr d, s')
           \<longrightarrow> d = buildInfo_object n p (name_of b)
               \<and> fs_readFile (BUILD_INFO_PATH w) s' = Inr (JSON_stringify w d)
               \<and> (\<exists>more. events s' = events s1 @ [Rm (BUILD_DIRECTORY w), Mkdir (BUILD_DIRECTORY w)]
                     @ map (HttpRequest ''GET'') (format_property (object_get (DOWNLOAD_URLS b) p) n # more)
                     @ [CreateWriteStream (BUILD_DIRECTORY w @ [''firefox.zip'']),
                        ExtractAllTo (BUILD_DIRECTORY w @ [''firefox.zip'']) (BUILD_DIRECTORY w) False True,
                        WriteFile (BUILD_INFO_PATH w)])"
proof -
  let ?B = "BUILD_DIRECTORY w"
  let ?T = "object_get (DOWNLOAD_URLS b) p"
  let ?url = "format_property ?T n"
  let ?E = "ensureFirefoxBuild w b a3 a4 s"
  have m: "?E = stage_build w b n p s1" using n p nm nn by (rule ensureFirefoxBuild_miss)
  note c = stage_build_cases[OF mk, of b n p]
  show e2: "events s2 = events s1 @ [Rm ?B, Mkdir ?B]" using mk by (rule wipe_events)
  show "lookup (fs s1) ?B \<noteq> None \<and> r2 = Inr () \<longrightarrow> (\<forall>q. prefix ?B q \<longrightarrow> file_at (fs s2) q = None)"
    using wipe_files[of ?B s1 "()" s2] mk by auto
  show c1: "\<forall>e. r2 = Inl e \<longrightarrow> ?E = Some (Inl e, s2)" using c m by simp
  show c2: "r2 = Inr () \<and> \<not> property_truthy ?T
      \<longrightarrow> ?E = Some (Inl (Error (''ERROR: repack-juggler does not support '' @ p)), s2)"
    using c m by simp
  show c3: "r2 = Inr () \<and> property_truthy ?T \<longrightarrow> ?E = download_and_extract w b n p ?url s2"
    using c m by simp
  show "\<forall>hops final res st3 entries st4 st5.
           r2 = Inr () \<and> property_truthy ?T
           \<and> redirect_chain w ?url hops final
           \<and> net w final = Some res \<and> statusCode res = 200
           \<and> store_write (?B @ [''firefox.zip'']) (body res) (fs s2) = Some st3
           \<and> zip_read w (body res) = Some entries
           \<and> extract_entries ?B False entries st3 = (True, st4)
           \<and> store_write (BUILD_INFO_PATH w) (JSON_stringify w (buildInfo_object n p (name_of b))) st4 = Some st5
           \<longrightarrow> ?E
                 = Some (Inr (buildInfo_object n p (name_of b)),
                         s2\<lparr>fs := st5,
                            events := events s1 @ [Rm ?B, Mkdir ?B]
                              @ map (HttpRequest ''GET'') (?url # hops)
                              @ [CreateWriteStream (?B @ [''firefox.zip'']),
                                 ExtractAllTo (?B @ [''firefox.zip'']) ?B False True,
                                 WriteFile (BUILD_INFO_PATH w)]\<rparr>)"
  proof (intro allI impI)
    fix hops final res st3 entries st4 st5
    assume a: "r2 = Inr () \<and> property_truthy ?T
           \<and> redirect_chain w ?url hops final
           \<and> net w final = Some res \<and> statusCode res = 200
           \<and> store_write (?B @ [''firefox.zip'']) (body res) (fs s2) = Some st3
           \<and> zip_read w (body res) = Some entries
           \<and> extract_entries ?B False entries st3 = (True, st4)
           \<and> store_write (BUILD_INFO_PATH w) (JSON_stringify w (buildInfo_object n p (name_of b))) st4 = Some st5"
    have "download_and_extract w b n p ?url s2
       = Some (Inr (buildInfo_object n p (name_of b)),
               s2\<lparr>fs := st5,
                  events := events s2 @ map (HttpRequest ''GET'') (?url # hops)
                    @ [CreateWriteStream (?B @ [''firefox.zip'']),
                       ExtractAllTo (?B @ [''firefox.zip'']) ?B False True,
                       WriteFile (BUILD_INFO_PATH w)]\<rparr>)"
      using a download_and_extract_succeeds[of w ?url hops final res s2 st3 entries st4 n p b st5] by blast
    with a c3 e2 show "?E
                 = Some (Inr (buildInfo_object n p (name_of b)),
                         s2\<lparr>fs := st5,
                            events := events s1 @ [Rm ?B, Mkdir ?B]
                              @ map (HttpRequest ''GET'') (?url # hops)
                              @ [CreateWriteStream (?B @ [''firefox.zip'']),
                                 ExtractAllTo (?B @ [''firefox.zip'']) ?B False True,
                                 WriteFile (BUILD_INFO_PATH w)]\<rparr>)"
      by simp
  qed
  show "\<forall>r s'. ?E = Some (r, s') \<longrightarrow> (\<exists>rest. events s' = events s1 @ Rm ?B # Mkdir ?B # rest)"
  proof (intro allI impI)
    fix r s' assume r: "?E = Some (r, s')"
    show "\<exists>rest. events s' = events s1 @ Rm ?B # Mkdir ?B # rest"
    proof (cases r2)
      case (Inl e)
      with c1 r have "s' = s2" by simp
      with e2 show ?thesis by simp
    next
      case (Inr u)
      show ?thesis
      proof (cases "property_truthy ?T")
        case False
        with c2 Inr r have "s' = s2" by simp
        with e2 show ?thesis by simp
      next
        case True
        with c3 Inr r have "download_and_extract w b n p ?url s2 = Some (r, s')" by simp
        from download_and_extract_events[OF this] e2 show ?thesis by auto
      qed
    qed
  qed
  show "?E = None \<longrightarrow> r2 = Inr () \<and> property_truthy ?T \<and> httpRequest w ?url ''GET'' s2 = None"
  proof
    assume none: "?E = None"
    show "r2 = Inr () \<and> property_truthy ?T \<and> httpRequest w ?url ''GET'' s2 = None"
    proof (cases r2)
      case (Inl e)
      with c1 none show ?thesis by simp
    next
      case (Inr u)
      show ?thesis
      proof (cases "property_truthy ?T")
        case False
        with c2 Inr none show ?thesis by simp
      next
        case True
        with c3 Inr none have "download_and_extract w b n p ?url s2 = None" by simp
        with True Inr show ?thesis by (simp add: download_and_extract_None)
      qed
    qed
  qed
  show "\<forall>d s'. ?E = Some (Inr d, s')
           \<longrightarrow> d = buildInfo_object n p (name_of b)
               \<and> fs_readFile (BUILD_INFO_PATH w) s' = Inr (JSON_stringify w d)
               \<and> (\<exists>more. events s' = events s1 @ [Rm ?B, Mkdir ?B]
                     @ map (HttpRequest ''GET'') (?url # more)
                     @ [CreateWriteStream (?B @ [''firefox.zip'']),
                        ExtractAllTo (?B @ [''firefox.zip'']) ?B False True,
                        WriteFile (BUILD_INFO_PATH w)])"
  proof (intro allI impI)
    fix d s' assume r: "?E = Some (Inr d, s')"
    have "r2 = Inr () \<and> property_truthy ?T"
    proof (cases r2)
      case (Inl e)
      with c1 r show ?thesis by simp
    next
      case (Inr u)
      with c2 r show ?thesis by (cases "property_truthy ?T") simp_all
    qed
    with c3 r have "download_and_extract w b n p ?url s2 = Some (Inr d, s')" by simp
    from download_and_extract_Inr[OF this] e2
    show "d = buildInfo_object n p (name_of b)
               \<and> fs_readFile (BUILD_INFO_PATH w) s' = Inr (JSON_stringify w d)
               \<and> (\<exists>more. events s' = events s1 @ [Rm ?B, Mkdir ?B]
                     @ map (HttpRequest ''GET'') (?url # more)
                     @ [CreateWriteStream (?B @ [''firefox.zip'']),
                        ExtractAllTo (?B @ [''firefox.zip'']) ?B False True,
                        WriteFile (BUILD_INFO_PATH w)])"
      by auto
  qed
qed

text \<open>
  C9, as amended. When \<^verbatim>\<open>build-info.json\<close> cannot be read or does not parse, the descriptor
  read is the one of three empty strings, which matches no request (the variant is
  \<^verbatim>\<open>firefox\<close> or \<^verbatim>\<open>firefox-beta\<close>): \<^verbatim>\<open>ensureFirefoxBuild\<close> never returns the cached
  descriptor. It always calls \<^verbatim>\<open>rm\<close> and \<^verbatim>\<open>mkdir\<close> on the build directory first, and when
  the directory existed no file is left below it. What follows depends on the rest: when
  \<^verbatim>\<open>mkdir\<close> fails, its error is thrown; when the table has no URL template for the platform,
  the error "does not support" is thrown; otherwise the build is downloaded and extracted,
  which returns the new descriptor when the redirects end in a response with status 200
  whose body is an archive that can be extracted and the descriptor can be written. A run
  returns unless the redirects never end.
\<close>

theorem ensureFirefoxBuild_unreadable_descriptor:
  assumes "resolve_buildNumber w browserName buildNumberArg s = Inr buildNumber"
    and "resolve_buildPlatform w buildPlatformArg s = (Inr buildPlatform, s1)"
    and "fs_readFile (BUILD_INFO_PATH w) s = Inl e
         \<or> (\<exists>text. fs_readFile (BUILD_INFO_PATH w) s = Inr text \<and> JSON_parse w text = None)"
    and "fs_mkdir (BUILD_DIRECTORY w) (snd (fs_rm_recursive (BUILD_DIRECTORY w) s1)) = (r2, s2)"
  shows "\<not> descriptor_matches (currentBuildInfo w s1) buildPlatform buildNumber (name_of browserName)
       \<and> ensureFirefoxBuild w browserName buildNumberArg buildPlatformArg s
           \<noteq> Some (Inr (currentBuildInfo w s1), s1)
       \<and> events s2 = events s1 @ [Rm (BUILD_DIRECTORY w), Mkdir (BUILD_DIRECTORY w)]
       \<and> (lookup (fs s1) (BUILD_DIRECTORY w) \<noteq> None \<and> r2 = Inr ()
            \<longrightarrow> (\<forall>q. prefix (BUILD_DIRECTORY w) q \<longrightarrow> file_at (fs s2) q = None))
       \<and> (\<forall>e'. r2 = Inl e'
            \<longrightarrow> ensureFirefoxBuild w browserName buildNumberArg buildPlatformArg s = Some (Inl e', s2))
       \<and> (r2 = Inr () \<and> \<not> property_truthy (object_get (DOWNLOAD_URLS browserName) buildPlatform)
            \<longrightarrow> ensureFirefoxBuild w browserName buildNumberArg buildPlatformArg s
                  = Some (Inl (Error (''ERROR: repack-juggler does not support '' @ buildPlatform)), s2))
       \<and> (r2 = Inr () \<and> property_truthy (object_get (DOWNLOAD_URLS browserName) buildPlatform)
            \<longrightarrow> ensureFirefoxBuild w browserName buildNumberArg buildPlatformArg s
                  = download_and_extract w browserName buildNumber buildPlatform
                      (format_property (object_get (DOWNLOAD_URLS browserName) buildPlatform) buildNumber) s2)
       \<and> (\<forall>hops final res st3 entries st4 st5.
             r2 = Inr () \<and> property_truthy (object_get (DOWNLOAD_URLS browserName) buildPlatform)
             \<and> redirect_chain w
                  (format_property (object_get (DOWNLOAD_URLS browserName) buildPlatform) buildNumber) hops final
             \<and> net w final = Some res \<and> statusCode res = 200
             \<and> store_write (BUILD_DIRECTORY w @ [''firefox.zip'']) (body res) (fs s2) = Some st3
             \<and> zip_read w (body res) = Some entries
             \<and> extract_entries (BUILD_DIRECTORY w) False entries st3 = (True, st4)
             \<and> store_write (BUILD_INFO_PATH w)
                  (JSON_stringify w (buildInfo_object buildNumber buildPlatform (name_of browserName))) st4
                 = Some st5
            \<longrightarrow> ensureFirefoxBuild w browserName buildNumberArg buildPlatformArg s
                  = Some (Inr (buildInfo_object buildNumber buildPlatform (name_of browserName)),
                          s2\<lparr>fs := st5,
                             events := events s1 @ [Rm (BUILD_DIRECTORY w), Mkdir (BUILD_DIRECTORY w)]
                               @ map (HttpRequest ''GET'')
                                   (format_property (object_get (DOWNLOAD_URLS browserName) buildPlatform) buildNumber
                                    # hops)
                               @ [CreateWriteStream (BUILD_DIRECTORY w @ [''firefox.zip'']),
                                  ExtractAllTo (BUILD_DIRECTORY w @ [''firefox.zip'']) (BUILD_DIRECTORY w) False True,
                                  WriteFile (BUILD_INFO_PATH w)]\<rparr>))
       \<and> (\<forall>r s'. ensureFirefoxBuild w browserName buildNumberArg buildPlatformArg s = Some (r, s')
            \<longrightarrow> (\<exists>rest. events s' = events s1 @ Rm (BUILD_DIRECTORY w) # Mkdir (BUILD_DIRECTORY w) # rest))
       \<and> (ensureFirefoxBuild w browserName buildNumberArg buildPlatformArg s = None
            \<longrightarrow> r2 = Inr () \<and> property_truthy (object_get (DOWNLOAD_URLS browserName) buildPlatform)
                \<and> httpRequest w
                     (format_property (object_get (DOWNLOAD_URLS browserName) buildPlatform) buildNumber)
                     ''GET'' s2 = None)"
proof -
  let ?default = "JObj [(''buildPlatform'', JStr []), (''buildNumber'', JStr []), (''browserName'', JStr [])]"
  have f: "fs s1 = fs s" using assms(2) by (rule resolve_buildPlatform_fs)
  have "currentBuildInfo w s = ?default"
    using assms(3) by (auto simp: currentBuildInfo_def)
  then have c: "currentBuildInfo w s1 = ?default"
    using currentBuildInfo_cong[OF f] by simp
  have nm: "\<not> descriptor_matches (currentBuildInfo w s1) buildPlatform buildNumber (name_of browserName)"
    unfolding c using name_of_not_Nil by (rule default_descriptor_no_match)
  have nn: "currentBuildInfo w s1 \<noteq> JNull" by (simp add: c)
  note m = ensureFirefoxBuild_mismatch[OF assms(1,2) nm nn assms(4)]
  have nh: "ensureFirefoxBuild w browserName buildNumberArg buildPlatformArg s
           \<noteq> Some (Inr (currentBuildInfo w s1), s1)"
  proof
    assume "ensureFirefoxBuild w browserName buildNumberArg buildPlatformArg s
           = Some (Inr (currentBuildInfo w s1), s1)"
    with m(7) show False by auto
  qed
  from nm nh m(1) m(2) m(3) m(4) m(5) m(6) m(7) m(8) show ?thesis by (intro conjI)
qed

theorem ensureFirefoxBuild_unreadable_descriptor_witness:
  "\<exists>s'. ensureFirefoxBuild linux_world Firefox (Some ''1234'') (Some ''ubuntu20.04'') corrupt_state
           = Some (Inr (buildInfo_object ''1234'' ''ubuntu20.04'' ''firefox''), s')
      \<and> events s' = [Rm [''tmp'', ''repackaged-firefox''], Mkdir [''tmp'', ''repackaged-firefox''],
            HttpRequest ''GET'' ''https://playwright.azureedge.net/builds/firefox/1234/firefox-ubuntu-20.04.zip'',
            HttpRequest ''GET'' ''https://cdn.example/a'',
            HttpRequest ''GET'' ''https://cdn.example/b'',
            CreateWriteStream [''tmp'', ''repackaged-firefox'', ''firefox.zip''],
            ExtractAllTo [''tmp'', ''repackaged-firefox'', ''firefox.zip''] [''tmp'', ''repackaged-firefox''] False True,
            WriteFile [''tmp'', ''repackaged-firefox'', ''build-info.json'']]
      \<and> file_at (fs s') [''tmp'', ''repackaged-firefox'', ''build-info.json'']
           = Some ''{buildNumber:1234;buildPlatform:ubuntu20.04;browserName:firefox;}''"
proof -
  let ?w = linux_world
  let ?B = "[''tmp'', ''repackaged-firefox'']"
  let ?url = "''https://playwright.azureedge.net/builds/firefox/1234/firefox-ubuntu-20.04.zip''"
  let ?res = "\<lparr>statusCode = 200, location = None, body = sample_zip_write sample_build\<rparr>"
  let ?d = "buildInfo_object ''1234'' ''ubuntu20.04'' ''firefox''"
  let ?T = "object_get (DOWNLOAD_URLS Firefox) ''ubuntu20.04''"
  have B: "BUILD_DIRECTORY ?w = ?B" by code_simp
  have BI: "BUILD_INFO_PATH ?w = ?B @ [''build-info.json'']" by (simp add: BUILD_INFO_PATH_def B)
  have n: "resolve_buildNumber ?w Firefox (Some ''1234'') corrupt_state = Inr ''1234''"
    by (simp add: resolve_buildNumber_def)
  have p: "resolve_buildPlatform ?w (Some ''ubuntu20.04'') corrupt_state = (Inr ''ubuntu20.04'', corrupt_state)"
    by (simp add: resolve_buildPlatform_def)
  have r1: "fs_readFile (BUILD_INFO_PATH ?w) corrupt_state = Inr ''{buildNumber:12''" by code_simp
  have r2: "JSON_parse ?w ''{buildNumber:12'' = None" by code_simp
  from r1 r2 have h: "fs_readFile (BUILD_INFO_PATH ?w) corrupt_state = Inl (FsError [])
      \<or> (\<exists>text. fs_readFile (BUILD_INFO_PATH ?w) corrupt_state = Inr text \<and> JSON_parse ?w text = None)"
    by blast
  define s2 where "s2 = snd (fs_mkdir (BUILD_DIRECTORY ?w) (snd (fs_rm_recursive (BUILD_DIRECTORY ?w) corrupt_state)))"
  have "fst (fs_mkdir (BUILD_DIRECTORY ?w) (snd (fs_rm_recursive (BUILD_DIRECTORY ?w) corrupt_state))) = Inr ()"
    by code_simp
  then have mk: "fs_mkdir (BUILD_DIRECTORY ?w) (snd (fs_rm_recursive (BUILD_DIRECTORY ?w) corrupt_state)) = (Inr (), s2)"
    unfolding s2_def by (metis prod.collapse)
  have fs2: "fs s2 = [(?B, Dir), ([''tmp''], Dir)]" unfolding s2_def by code_simp
  have tr: "property_truthy ?T" by code_simp
  have u: "format_property ?T ''1234'' = ?url" by code_simp
  have ch: "redirect_chain ?w (format_property ?T ''1234'') [''https://cdn.example/a'', ''https://cdn.example/b'']
      ''https://cdn.example/b''"
    unfolding u by (simp add: linux_world_def sample_world_def sample_net_def)
  have nf: "net ?w ''https://cdn.example/b'' = Some ?res"
    by (simp add: linux_world_def sample_world_def sample_net_def)
  have ok: "statusCode ?res = 200" by simp
  define st3 where "st3 = (?B @ [''firefox.zip''], File (sample_zip_write sample_build)) # [(?B, Dir), ([''tmp''], Dir)]"
  have "store_write (?B @ [''firefox.zip'']) (sample_zip_write sample_build) [(?B, Dir), ([''tmp''], Dir)]
      = Some ((?B @ [''firefox.zip''], File (sample_zip_write sample_build)) # [(?B, Dir), ([''tmp''], Dir)])"
    by code_simp
  then have w3: "store_write (BUILD_DIRECTORY ?w @ [''firefox.zip'']) (body ?res) (fs s2) = Some st3"
    unfolding st3_def fs2 B by simp
  have zr: "zip_read ?w (body ?res) = Some sample_build" by code_simp
  define st4 where "st4 = snd (extract_entries ?B False sample_build ((?B @ [''firefox.zip''], File (sample_zip_write sample_build)) # [(?B, Dir), ([''tmp''], Dir)]))"
  have "fst (extract_entries ?B False sample_build ((?B @ [''firefox.zip''], File (sample_zip_write sample_build)) # [(?B, Dir), ([''tmp''], Dir)])) = True"
    by code_simp
  then have ex: "extract_entries (BUILD_DIRECTORY ?w) False sample_build st3 = (True, st4)"
    unfolding st4_def st3_def B by (simp add: prod_eq_iff)
  define st5 where "st5 = (?B @ [''build-info.json''], File (JSON_stringify ?w ?d)) # st4"
  have "store_write (?B @ [''build-info.json'']) (JSON_stringify ?w ?d) st4
      = Some ((?B @ [''build-info.json''], File (JSON_stringify ?w ?d)) # st4)"
    unfolding st4_def by code_simp
  then have w5: "store_write (BUILD_INFO_PATH ?w) (JSON_stringify ?w (buildInfo_object ''1234'' ''ubuntu20.04'' (name_of Firefox))) st4 = Some st5"
    unfolding st5_def BI by simp
  let ?s' = "s2\<lparr>fs := st5,
       events := events corrupt_state @ [Rm (BUILD_DIRECTORY ?w), Mkdir (BUILD_DIRECTORY ?w)]
         @ map (HttpRequest ''GET'') (format_property ?T ''1234'' # [''https://cdn.example/a'', ''https://cdn.example/b''])
         @ [CreateWriteStream (BUILD_DIRECTORY ?w @ [''firefox.zip'']),
            ExtractAllTo (BUILD_DIRECTORY ?w @ [''firefox.zip'']) (BUILD_DIRECTORY ?w) False True,
            WriteFile (BUILD_INFO_PATH ?w)]\<rparr>"
  from ensureFirefoxBuild_unreadable_descriptor[OF n p h mk] tr ch nf ok w3 zr ex w5
  have b: "ensureFirefoxBuild ?w Firefox (Some ''1234'') (Some ''ubuntu20.04'') corrupt_state
      = Some (Inr (buildInfo_object ''1234'' ''ubuntu20.04'' (name_of Firefox)), ?s')"
    by blast
  have ev: "events ?s' = [Rm ?B, Mkdir ?B, HttpRequest ''GET'' ?url, HttpRequest ''GET'' ''https://cdn.example/a'',
                HttpRequest ''GET'' ''https://cdn.example/b'',
                CreateWriteStream (?B @ [''firefox.zip'']),
                ExtractAllTo (?B @ [''firefox.zip'']) ?B False True,
                WriteFile (?B @ [''build-info.json''])]"
    by (simp add: B BI u corrupt_state_def del: DOWNLOAD_URLS.simps)
  have js: "JSON_stringify ?w ?d = ''{buildNumber:1234;buildPlatform:ubuntu20.04;browserName:firefox;}''"
    by code_simp
  have fa: "file_at (fs ?s') (?B @ [''build-info.json'']) = Some ''{buildNumber:1234;buildPlatform:ubuntu20.04;browserName:firefox;}''"
    by (simp add: st5_def file_at_Cons_File js)
  from b ev fa show ?thesis by (intro exI[of _ ?s']) simp
qed

text \<open>
  The claim C9 as it was stated has \<^verbatim>\<open>ensureFirefoxBuild\<close> always stage the build again when
  the descriptor cannot be read. With a build staged, its descriptor unparseable and the
  platform \<^verbatim>\<open>win32\<close> requested, the build directory is removed and created again, and the
  call throws with nothing staged: the table has no download for \<^verbatim>\<open>win32\<close>.
\<close>

theorem ensureFirefoxBuild_not_restaged_counterexample:
  "JSON_parse linux_world ''{buildNumber:12'' = None
   \<and> fs_readFile (BUILD_INFO_PATH linux_world) corrupt_state = Inr ''{buildNumber:12''
   \<and> ensureFirefoxBuild linux_world Firefox (Some ''1234'') (Some ''win32'') corrupt_state
     = Some (Inl (Error ''ERROR: repack-juggler does not support win32''),
             \<lparr>fs = [([''tmp'', ''repackaged-firefox''], Dir), ([''tmp''], Dir)],
              events = [Rm [''tmp'', ''repackaged-firefox''], Mkdir [''tmp'', ''repackaged-firefox'']]\<rparr>)"
  by code_simp

lemma getHostPlatform_events:
  "\<exists>cmds. events (snd (getHostPlatform w s)) = events s @ map ExecSync cmds"
proof (cases "os_platform w = ''darwin''")
  case True
  show ?thesis
  proof (cases "execSync w ''sw_vers -productVersion''")
    case None
    with True have "events (snd (getHostPlatform w s)) = events s @ map ExecSync [''sw_vers -productVersion'']"
      by (simp add: getHostPlatform_def Let_def andThen_def child_process_execSync_def)
    then show ?thesis by blast
  next
    case (Some out)
    show ?thesis
    proof (cases "num_ge (case map parseInt (split_on CHR ''.'' (trim out)) of [] \<Rightarrow> Undefined | x # xs \<Rightarrow> x) 11")
      case False
      with True Some have "events (snd (getHostPlatform w s)) = events s @ map ExecSync [''sw_vers -productVersion'']"
        by (simp add: getHostPlatform_def Let_def andThen_def child_process_execSync_def)
      then show ?thesis by blast
    next
      case ge: True
      show ?thesis
      proof (cases "execSync w ''/usr/sbin/sysctl -in hw.optional.arm64''")
        case None
        with True Some ge have "events (snd (getHostPlatform w s))
            = events s @ map ExecSync [''sw_vers -productVersion'', ''/usr/sbin/sysctl -in hw.optional.arm64'']"
          by (simp add: getHostPlatform_def Let_def andThen_def child_process_execSync_def)
        then show ?thesis by blast
      next
        case probe: (Some out2)
        with True Some ge have "events (snd (getHostPlatform w s))
            = events s @ map ExecSync [''sw_vers -productVersion'', ''/usr/sbin/sysctl -in hw.optional.arm64'']"
          by (simp add: getHostPlatform_def Let_def andThen_def child_process_execSync_def)
        then show ?thesis by blast
      qed
    qed
  qed
next
  case False
  then have "events (snd (getHostPlatform w s)) = events s @ map ExecSync []"
    by (simp add: getHostPlatform_def Let_def)
  then show ?thesis by blast
qed

lemma resolve_buildPlatform_events:
  assumes "resolve_buildPlatform w a s = (r, s')"
  shows "\<exists>cmds. events s' = events s @ map ExecSync cmds"
proof (cases "truthy a")
  case True
  with assms have "events s' = events s @ map ExecSync []" by (auto simp: resolve_buildPlatform_def)
  then show ?thesis by blast
next
  case False
  with assms have "s' = snd (getHostPlatform w s)" by (auto simp: resolve_buildPlatform_def)
  with getHostPlatform_events[of w s] show ?thesis by simp
qed

lemma ensureFirefoxBuild_again:
  assumes first: "ensureFirefoxBuild w b a3 a4 s = Some (Inr d, s')"
    and n1: "resolve_buildNumber w b a3 s = Inr n"
    and p1: "resolve_buildPlatform w a4 s = (Inr p, s1)"
    and n2: "resolve_buildNumber w b a3' s' = Inr n"
    and p2: "resolve_buildPlatform w a4' s' = (Inr p, s1')"
    and rt: "JSON_parse w (JSON_stringify w (buildInfo_object n p (name_of b))) = Some (buildInfo_object n p (name_of b))"
  shows "ensureFirefoxBuild w b a3' a4' s' = Some (Inr d, s1')"
proof -
  have f2: "fs s1' = fs s'" using p2 by (rule resolve_buildPlatform_fs)
  have c2: "currentBuildInfo w s1' = currentBuildInfo w s'" using f2 by (rule currentBuildInfo_cong)
  have "currentBuildInfo w s' = d \<and> descriptor_matches d p n (name_of b)"
  proof (cases "descriptor_matches (currentBuildInfo w s1) p n (name_of b)")
    case True
    from ensureFirefoxBuild_hit[OF n1 p1 True] first
    have "d = currentBuildInfo w s1" "s' = s1" by simp_all
    with True show ?thesis by simp
  next
    case False
    have nn: "currentBuildInfo w s1 \<noteq> JNull"
    proof
      assume "currentBuildInfo w s1 = JNull"
      from ensureFirefoxBuild_null[OF n1 p1 this] first show False by simp
    qed
    obtain r2 s2 where mk: "fs_mkdir (BUILD_DIRECTORY w) (snd (fs_rm_recursive (BUILD_DIRECTORY w) s1)) = (r2, s2)"
      by (cases "fs_mkdir (BUILD_DIRECTORY w) (snd (fs_rm_recursive (BUILD_DIRECTORY w) s1))")
    from ensureFirefoxBuild_mismatch(9)[OF n1 p1 False nn mk] first
    have d: "d = buildInfo_object n p (name_of b)" and r: "fs_readFile (BUILD_INFO_PATH w) s' = Inr (JSON_stringify w d)"
      by blast+
    from r rt d have "currentBuildInfo w s' = d" by (simp add: currentBuildInfo_def)
    with d show ?thesis by (simp add: descriptor_matches_buildInfo_object)
  qed
  with c2 have m: "descriptor_matches (currentBuildInfo w s1') p n (name_of b)" and e: "currentBuildInfo w s1' = d"
    by simp_all
  from ensureFirefoxBuild_hit[OF n2 p2 m] e show ?thesis by simp
qed

text \<open>
  C1, as amended. Once the request is resolved (which runs at most the two commands that
  identify the host), \<^verbatim>\<open>ensureFirefoxBuild\<close> returns the descriptor read from
  \<^verbatim>\<open>build-info.json\<close> if and only if its three fields equal the resolved request, and then it
  has done nothing more: no removal, no request, no extraction. A descriptor file that holds
  the JSON \<^verbatim>\<open>null\<close> makes the comparison throw. On any other mismatch the build directory
  is removed (a failure of the removal ignored) and created again, first of all, and when it
  existed no file is left below it; then an error of \<^verbatim>\<open>mkdir\<close> is thrown, or, when the read
  of the table of URLs finds nothing for the platform, the error "does not support", with no
  request sent; otherwise the build is downloaded from the formatted URL and extracted, and
  when the redirects end in a response with status 200 whose body is an archive that can be
  extracted and the descriptor can be written, the new descriptor is written and returned.
  A run returns unless the redirects never end. A call that returned a descriptor, followed
  by a call that resolves to the same request (the JSON of the descriptor parsing back),
  returns the same descriptor and leaves the file system as it is.
\<close>

theorem ensureFirefoxBuild_cache:
  assumes "resolve_buildNumber w browserName buildNumberArg s = Inr buildNumber"
    and "resolve_buildPlatform w buildPlatformArg s = (Inr buildPlatform, s1)"
    and "fs_mkdir (BUILD_DIRECTORY w) (snd (fs_rm_recursive (BUILD_DIRECTORY w) s1)) = (r2, s2)"
  shows "((\<exists>s'. ensureFirefoxBuild w browserName buildNumberArg buildPlatformArg s
                  = Some (Inr (currentBuildInfo w s1), s'))
            \<longleftrightarrow> descriptor_matches (currentBuildInfo w s1) buildPlatform buildNumber (name_of browserName))
       \<and> (descriptor_matches (currentBuildInfo w s1) buildPlatform buildNumber (name_of browserName)
            \<longrightarrow> ensureFirefoxBuild w browserName buildNumberArg buildPlatformArg s
                  = Some (Inr (currentBuildInfo w s1), s1))
       \<and> fs s1 = fs s \<and> (\<exists>cmds. events s1 = events s @ map ExecSync cmds)
       \<and> (currentBuildInfo w s1 = JNull
            \<longrightarrow> ensureFirefoxBuild w browserName buildNumberArg buildPlatformArg s
                  = Some (Inl (TypeError ''buildPlatform''), s1))
       \<and> (\<not> descriptor_matches (currentBuildInfo w s1) buildPlatform buildNumber (name_of browserName)
           \<and> currentBuildInfo w s1 \<noteq> JNull
            \<longrightarrow> events s2 = events s1 @ [Rm (BUILD_DIRECTORY w), Mkdir (BUILD_DIRECTORY w)]
              \<and> (lookup (fs s1) (BUILD_DIRECTORY w) \<noteq> None \<and> r2 = Inr ()
                   \<longrightarrow> (\<forall>q. prefix (BUILD_DIRECTORY w) q \<longrightarrow> file_at (fs s2) q = None))
              \<and> (\<forall>e. r2 = Inl e
                   \<longrightarrow> ensureFirefoxBuild w browserName buildNumberArg buildPlatformArg s = Some (Inl e, s2))
              \<and> (r2 = Inr () \<and> \<not> property_truthy (object_get (DOWNLOAD_URLS browserName) buildPlatform)
                   \<longrightarrow> ensureFirefoxBuild w browserName buildNumberArg buildPlatformArg s
                         = Some (Inl (Error (''ERROR: repack-juggler does not support '' @ buildPlatform)), s2))
              \<and> (r2 = Inr () \<and> property_truthy (object_get (DOWNLOAD_URLS browserName) buildPlatform)
                   \<longrightarrow> ensureFirefoxBuild w browserName buildNumberArg buildPlatformArg s
                         = download_and_extract w browserName buildNumber buildPlatform
                             (format_property (object_get (DOWNLOAD_URLS browserName) buildPlatform) buildNumber) s2)
              \<and> (\<forall>hops final res st3 entries st4 st5.
                    r2 = Inr () \<and> property_truthy (object_get (DOWNLOAD_URLS browserName) buildPlatform)
                    \<and> redirect_chain w
                         (format_property (object_get (DOWNLOAD_URLS browserName) buildPlatform) buildNumber)
                         hops final
                    \<and> net w final = Some res \<and> statusCode res = 200
                    \<and> store_write (BUILD_DIRECTORY w @ [''firefox.zip'']) (body res) (fs s2) = Some st3
                    \<and> zip_read w (body res) = Some entries
                    \<and> extract_entries (BUILD_DIRECTORY w) False entries st3 = (True, st4)
                    \<and> store_write (BUILD_INFO_PATH w)
                         (JSON_stringify w (buildInfo_object buildNumber buildPlatform (name_of browserName))) st4
                        = Some st5
                   \<longrightarrow> ensureFirefoxBuild w browserName buildNumberArg buildPlatformArg s
                         = Some (Inr (buildInfo_object buildNumber buildPlatform (name_of browserName)),
                                 s2\<lparr>fs := st5,
                                    events := events s1 @ [Rm (BUILD_DIRECTORY w), Mkdir (BUILD_DIRECTORY w)]
                                      @ map (HttpRequest ''GET'')
                                          (format_property (object_get (DOWNLOAD_URLS browserName) buildPlatform)
                                             buildNumber # hops)
                                      @ [CreateWriteStream (BUILD_DIRECTORY w @ [''firefox.zip'']),
                                         ExtractAllTo (BUILD_DIRECTORY w @ [''firefox.zip'']) (BUILD_DIRECTORY w)
                                           False True,
                                         WriteFile (BUILD_INFO_PATH w)]\<rparr>))
              \<and> (\<forall>r s'. ensureFirefoxBuild w browserName buildNumberArg buildPlatformArg s = Some (r, s')
                   \<longrightarrow> (\<exists>rest. events s' = events s1 @ Rm (BUILD_DIRECTORY w) # Mkdir (BUILD_DIRECTORY w) # rest))
              \<and> (ensureFirefoxBuild w browserName buildNumberArg buildPlatformArg s = None
                   \<longrightarrow> r2 = Inr () \<and> property_truthy (object_get (DOWNLOAD_URLS browserName) buildPlatform)
                       \<and> httpRequest w
                            (format_property (object_get (DOWNLOAD_URLS browserName) buildPlatform) buildNumber)
                            ''GET'' s2 = None))
       \<and> (\<forall>d s' buildNumberArg' buildPlatformArg' s1'.
             ensureFirefoxBuild w browserName buildNumberArg buildPlatformArg s = Some (Inr d, s')
             \<and> resolve_buildNumber w browserName buildNumberArg' s' = Inr buildNumber
             \<and> resolve_buildPlatform w buildPlatformArg' s' = (Inr buildPlatform, s1')
             \<and> JSON_parse w (JSON_stringify w (buildInfo_object buildNumber buildPlatform (name_of browserName)))
                 = Some (buildInfo_object buildNumber buildPlatform (name_of browserName))
            \<longrightarrow> ensureFirefoxBuild w browserName buildNumberArg' buildPlatformArg' s' = Some (Inr d, s1')
                \<and> fs s1' = fs s')"
proof -
  let ?cur = "currentBuildInfo w s1"
  let ?M = "descriptor_matches ?cur buildPlatform buildNumber (name_of browserName)"
  let ?E = "ensureFirefoxBuild w browserName buildNumberArg buildPlatformArg s"
  have hit: "?M \<longrightarrow> ?E = Some (Inr ?cur, s1)"
    using ensureFirefoxBuild_hit[OF assms(1,2)] by blast
  have null: "?cur = JNull \<longrightarrow> ?E = Some (Inl (TypeError ''buildPlatform''), s1)"
    using ensureFirefoxBuild_null[OF assms(1,2)] by blast
  have iff: "(\<exists>s'. ?E = Some (Inr ?cur, s')) \<longleftrightarrow> ?M"
  proof
    assume "\<exists>s'. ?E = Some (Inr ?cur, s')"
    then obtain s' where e: "?E = Some (Inr ?cur, s')" by blast
    show ?M
    proof (rule ccontr)
      assume nm: "\<not> ?M"
      have nn: "?cur \<noteq> JNull"
      proof
        assume "?cur = JNull"
        with null e show False by simp
      qed
      from ensureFirefoxBuild_mismatch(9)[OF assms(1,2) nm nn assms(3)] e
      have "?cur = buildInfo_object buildNumber buildPlatform (name_of browserName)" by blast
      with nm show False by (simp add: descriptor_matches_buildInfo_object)
    qed
  next
    assume ?M
    with hit show "\<exists>s'. ?E = Some (Inr ?cur, s')" by blast
  qed
  have f: "fs s1 = fs s" using assms(2) by (rule resolve_buildPlatform_fs)
  have ev: "\<exists>cmds. events s1 = events s @ map ExecSync cmds"
    using assms(2) by (rule resolve_buildPlatform_events)
  have again: "ensureFirefoxBuild w browserName buildNumberArg' buildPlatformArg' s' = Some (Inr d, s1')
                \<and> fs s1' = fs s'"
    if a: "?E = Some (Inr d, s')
             \<and> resolve_buildNumber w browserName buildNumberArg' s' = Inr buildNumber
             \<and> resolve_buildPlatform w buildPlatformArg' s' = (Inr buildPlatform, s1')
             \<and> JSON_parse w (JSON_stringify w (buildInfo_object buildNumber buildPlatform (name_of browserName)))
                 = Some (buildInfo_object buildNumber buildPlatform (name_of browserName))"
    for d s' buildNumberArg' buildPlatformArg' s1'
  proof
    from a show "ensureFirefoxBuild w browserName buildNumberArg' buildPlatformArg' s' = Some (Inr d, s1')"
      using ensureFirefoxBuild_again[OF _ assms(1,2)] by blast
    from a show "fs s1' = fs s'" using resolve_buildPlatform_fs by blast
  qed
  have mis: "events s2 = events s1 @ [Rm (BUILD_DIRECTORY w), Mkdir (BUILD_DIRECTORY w)]
              \<and> (lookup (fs s1) (BUILD_DIRECTORY w) \<noteq> None \<and> r2 = Inr ()
                   \<longrightarrow> (\<forall>q. prefix (BUILD_DIRECTORY w) q \<longrightarrow> file_at (fs s2) q = None))
              \<and> (\<forall>e. r2 = Inl e \<longrightarrow> ?E = Some (Inl e, s2))
              \<and> (r2 = Inr () \<and> \<not> property_truthy (object_get (DOWNLOAD_URLS browserName) buildPlatform)
                   \<longrightarrow> ?E = Some (Inl (Error (''ERROR: repack-juggler does not support '' @ buildPlatform)), s2))
              \<and> (r2 = Inr () \<and> property_truthy (object_get (DOWNLOAD_URLS browserName) buildPlatform)
                   \<longrightarrow> ?E = download_and_extract w browserName buildNumber buildPlatform
                             (format_property (object_get (DOWNLOAD_URLS browserName) buildPlatform) buildNumber) s2)
              \<and> (\<forall>hops final res st3 entries st4 st5.
                    r2 = Inr () \<and> property_truthy (object_get (DOWNLOAD_URLS browserName) buildPlatform)
                    \<and> redirect_chain w
                         (format_property (object_get (DOWNLOAD_URLS browserName) buildPlatform) buildNumber)
                         hops final
                    \<and> net w final = Some res \<and> statusCode res = 200
                    \<and> store_write (BUILD_DIRECTORY w @ [''firefox.zip'']) (body res) (fs s2) = Some st3
                    \<and> zip_read w (body res) = Some entries
                    \<and> extract_entries (BUILD_DIRECTORY w) False entries st3 = (True, st4)
                    \<and> store_write (BUILD_INFO_PATH w)
                         (JSON_stringify w (buildInfo_object buildNumber buildPlatform (name_of browserName))) st4
                        = Some st5
                   \<longrightarrow> ?E = Some (Inr (buildInfo_object buildNumber buildPlatform (name_of browserName)),
                                 s2\<lparr>fs := st5,
                                    events := events s1 @ [Rm (BUILD_DIRECTORY w), Mkdir (BUILD_DIRECTORY w)]
                                      @ map (HttpRequest ''GET'')
                                          (format_property (object_get (DOWNLOAD_URLS browserName) buildPlatform)
                                             buildNumber # hops)
                                      @ [CreateWriteStream (BUILD_DIRECTORY w @ [''firefox.zip'']),
                                         ExtractAllTo (BUILD_DIRECTORY w @ [''firefox.zip'']) (BUILD_DIRECTORY w)
                                           False True,
                                         WriteFile (BUILD_INFO_PATH w)]\<rparr>))
              \<and> (\<forall>r s'. ?E = Some (r, s')
                   \<longrightarrow> (\<exists>rest. events s' = events s1 @ Rm (BUILD_DIRECTORY w) # Mkdir (BUILD_DIRECTORY w) # rest))
              \<and> (?E = None
                   \<longrightarrow> r2 = Inr () \<and> property_truthy (object_get (DOWNLOAD_URLS browserName) buildPlatform)
                       \<and> httpRequest w
                            (format_property (object_get (DOWNLOAD_URLS browserName) buildPlatform) buildNumber)
                            ''GET'' s2 = None)"
    if nm: "\<not> ?M \<and> ?cur \<noteq> JNull"
  proof -
    from nm have a: "\<not> ?M" and b: "?cur \<noteq> JNull" by simp_all
    note m = ensureFirefoxBuild_mismatch[OF assms(1,2) a b assms(3)]
    from m(1) m(2) m(3) m(4) m(5) m(6) m(7) m(8) show ?thesis by (intro conjI)
  qed
  from iff hit f ev null mis again show ?thesis by (intro conjI impI allI) blast+
qed

theorem ensureFirefoxBuild_cache_witness:
  "ensureFirefoxBuild linux_world Firefox (Some ''1234'') (Some ''ubuntu20.04'') cached_state
     = Some (Inr (buildInfo_object ''1234'' ''ubuntu20.04'' ''firefox''), cached_state)
   \<and> (\<exists>s'. ensureFirefoxBuild linux_world Firefox (Some ''1234'') (Some ''ubuntu20.04'') tmp_state
              = Some (Inr (buildInfo_object ''1234'' ''ubuntu20.04'' ''firefox''), s')
          \<and> events s' = [Rm [''tmp'', ''repackaged-firefox''], Mkdir [''tmp'', ''repackaged-firefox''],
                HttpRequest ''GET'' ''https://playwright.azureedge.net/builds/firefox/1234/firefox-ubuntu-20.04.zip'',
                HttpRequest ''GET'' ''https://cdn.example/a'',
                HttpRequest ''GET'' ''https://cdn.example/b'',
                CreateWriteStream [''tmp'', ''repackaged-firefox'', ''firefox.zip''],
                ExtractAllTo [''tmp'', ''repackaged-firefox'', ''firefox.zip''] [''tmp'', ''repackaged-firefox''] False True,
                WriteFile [''tmp'', ''repackaged-firefox'', ''build-info.json'']]
          \<and> ensureFirefoxBuild linux_world Firefox (Some ''1234'') (Some ''ubuntu20.04'') s'
              = Some (Inr (buildInfo_object ''1234'' ''ubuntu20.04'' ''firefox''), s'))
   \<and> ensureFirefoxBuild linux_world Firefox (Some ''1234'') (Some ''win32'') cached_state
     = Some (Inl (Error ''ERROR: repack-juggler does not support win32''),
             \<lparr>fs = [([''tmp'', ''repackaged-firefox''], Dir), ([''tmp''], Dir)],
              events = [Rm [''tmp'', ''repackaged-firefox''], Mkdir [''tmp'', ''repackaged-firefox'']]\<rparr>)
   \<and> ensureFirefoxBuild linux_world Firefox (Some ''1234'') (Some ''constructor'') cached_state
     = Some (Inl (RequestError ''[Function: Object] 1234''),
             \<lparr>fs = [([''tmp'', ''repackaged-firefox''], Dir), ([''tmp''], Dir)],
              events = [Rm [''tmp'', ''repackaged-firefox''], Mkdir [''tmp'', ''repackaged-firefox''],
                        HttpRequest ''GET'' ''[Function: Object] 1234'']\<rparr>)"
proof -
  let ?w = linux_world
  let ?B = "[''tmp'', ''repackaged-firefox'']"
  let ?url = "''https://playwright.azureedge.net/builds/firefox/1234/firefox-ubuntu-20.04.zip''"
  let ?res = "\<lparr>statusCode = 200, location = None, body = sample_zip_write sample_build\<rparr>"
  let ?d = "buildInfo_object ''1234'' ''ubuntu20.04'' ''firefox''"
  let ?T = "object_get (DOWNLOAD_URLS Firefox) ''ubuntu20.04''"
  let ?wiped = "\<lparr>fs = [(?B, Dir), ([''tmp''], Dir)], events = [Rm ?B, Mkdir ?B]\<rparr>"
  have B: "BUILD_DIRECTORY ?w = ?B" by code_simp
  have BI: "BUILD_INFO_PATH ?w = ?B @ [''build-info.json'']" by (simp add: BUILD_INFO_PATH_def B)
  have n: "resolve_buildNumber ?w Firefox (Some ''1234'') s = Inr ''1234''" for s
    by (simp add: resolve_buildNumber_def)
  have p: "resolve_buildPlatform ?w (Some q) s = (Inr q, s)" if "q \<noteq> []" for s q
    using that by (simp add: resolve_buildPlatform_def)
  have p1: "resolve_buildPlatform ?w (Some ''ubuntu20.04'') s = (Inr ''ubuntu20.04'', s)" for s
    by (rule p) simp
  have p2: "resolve_buildPlatform ?w (Some ''win32'') s = (Inr ''win32'', s)" for s
    by (rule p) simp
  have p3: "resolve_buildPlatform ?w (Some ''constructor'') s = (Inr ''constructor'', s)" for s
    by (rule p) simp
  \<comment> \<open>the cached build matches\<close>
  have mk': "fs_mkdir (BUILD_DIRECTORY ?w) (snd (fs_rm_recursive (BUILD_DIRECTORY ?w) cached_state))
      = (Inr (), ?wiped)"
    by code_simp
  have cur: "currentBuildInfo ?w cached_state = ?d" by code_simp
  have hit: "descriptor_matches (currentBuildInfo ?w cached_state) ''ubuntu20.04'' ''1234'' (name_of Firefox)"
    by code_simp
  from ensureFirefoxBuild_cache[OF n p1 mk'] hit cur
  have a: "ensureFirefoxBuild ?w Firefox (Some ''1234'') (Some ''ubuntu20.04'') cached_state
     = Some (Inr ?d, cached_state)" by simp
  \<comment> \<open>no build is staged\<close>
  have nm: "\<not> descriptor_matches (currentBuildInfo ?w tmp_state) ''ubuntu20.04'' ''1234'' (name_of Firefox)"
    by code_simp
  have nn: "currentBuildInfo ?w tmp_state \<noteq> JNull" by code_simp
  define s2 where "s2 = snd (fs_mkdir (BUILD_DIRECTORY ?w) (snd (fs_rm_recursive (BUILD_DIRECTORY ?w) tmp_state)))"
  have "fst (fs_mkdir (BUILD_DIRECTORY ?w) (snd (fs_rm_recursive (BUILD_DIRECTORY ?w) tmp_state))) = Inr ()"
    by code_simp
  then have mk: "fs_mkdir (BUILD_DIRECTORY ?w) (snd (fs_rm_recursive (BUILD_DIRECTORY ?w) tmp_state)) = (Inr (), s2)"
    unfolding s2_def by (metis prod.collapse)
  have fs2: "fs s2 = [(?B, Dir), ([''tmp''], Dir)]" unfolding s2_def by code_simp
  have tr: "property_truthy ?T" by code_simp
  have u: "format_property ?T ''1234'' = ?url" by code_simp
  have ch: "redirect_chain ?w (format_property ?T ''1234'') [''https://cdn.example/a'', ''https://cdn.example/b'']
      ''https://cdn.example/b''"
    unfolding u by (simp add: linux_world_def sample_world_def sample_net_def)
  have nf: "net ?w ''https://cdn.example/b'' = Some ?res"
    by (simp add: linux_world_def sample_world_def sample_net_def)
  have ok: "statusCode ?res = 200" by simp
  define st3 where "st3 = (?B @ [''firefox.zip''], File (sample_zip_write sample_build)) # [(?B, Dir), ([''tmp''], Dir)]"
  have "store_write (?B @ [''firefox.zip'']) (sample_zip_write sample_build) [(?B, Dir), ([''tmp''], Dir)]
      = Some ((?B @ [''firefox.zip''], File (sample_zip_write sample_build)) # [(?B, Dir), ([''tmp''], Dir)])"
    by code_simp
  then have w3: "store_write (BUILD_DIRECTORY ?w @ [''firefox.zip'']) (body ?res) (fs s2) = Some st3"
    unfolding st3_def fs2 B by simp
  have zr: "zip_read ?w (body ?res) = Some sample_build" by code_simp
  define st4 where "st4 = snd (extract_entries ?B False sample_build ((?B @ [''firefox.zip''], File (sample_zip_write sample_build)) # [(?B, Dir), ([''tmp''], Dir)]))"
  have "fst (extract_entries ?B False sample_build ((?B @ [''firefox.zip''], File (sample_zip_write sample_build)) # [(?B, Dir), ([''tmp''], Dir)])) = True"
    by code_simp
  then have ex: "extract_entries (BUILD_DIRECTORY ?w) False sample_build st3 = (True, st4)"
    unfolding st4_def st3_def B by (simp add: prod_eq_iff)
  define st5 where "st5 = (?B @ [''build-info.json''], File (JSON_stringify ?w ?d)) # st4"
  have "store_write (?B @ [''build-info.json'']) (JSON_stringify ?w ?d) st4
      = Some ((?B @ [''build-info.json''], File (JSON_stringify ?w ?d)) # st4)"
    unfolding st4_def by code_simp
  then have w5: "store_write (BUILD_INFO_PATH ?w) (JSON_stringify ?w (buildInfo_object ''1234'' ''ubuntu20.04'' (name_of Firefox))) st4 = Some st5"
    unfolding st5_def BI by simp
  let ?s' = "s2\<lparr>fs := st5,
       events := events tmp_state @ [Rm (BUILD_DIRECTORY ?w), Mkdir (BUILD_DIRECTORY ?w)]
         @ map (HttpRequest ''GET'') (format_property ?T ''1234'' # [''https://cdn.example/a'', ''https://cdn.example/b''])
         @ [CreateWriteStream (BUILD_DIRECTORY ?w @ [''firefox.zip'']),
            ExtractAllTo (BUILD_DIRECTORY ?w @ [''firefox.zip'']) (BUILD_DIRECTORY ?w) False True,
            WriteFile (BUILD_INFO_PATH ?w)]\<rparr>"
  from ensureFirefoxBuild_cache[OF n p1 mk] nm nn tr ch nf ok w3 zr ex w5
  have b: "ensureFirefoxBuild ?w Firefox (Some ''1234'') (Some ''ubuntu20.04'') tmp_state
      = Some (Inr (buildInfo_object ''1234'' ''ubuntu20.04'' (name_of Firefox)), ?s')"
    by blast
  have rt: "JSON_parse ?w (JSON_stringify ?w (buildInfo_object ''1234'' ''ubuntu20.04'' (name_of Firefox)))
      = Some (buildInfo_object ''1234'' ''ubuntu20.04'' (name_of Firefox))" by code_simp
  from ensureFirefoxBuild_cache[OF n p1 mk] b n[of ?s'] p1[of ?s'] rt
  have c: "ensureFirefoxBuild ?w Firefox (Some ''1234'') (Some ''ubuntu20.04'') ?s'
      = Some (Inr (buildInfo_object ''1234'' ''ubuntu20.04'' (name_of Firefox)), ?s')"
    by blast
  have ev: "events ?s' = [Rm ?B, Mkdir ?B, HttpRequest ''GET'' ?url, HttpRequest ''GET'' ''https://cdn.example/a'',
                HttpRequest ''GET'' ''https://cdn.example/b'',
                CreateWriteStream (?B @ [''firefox.zip'']),
                ExtractAllTo (?B @ [''firefox.zip'']) ?B False True,
                WriteFile (?B @ [''build-info.json''])]"
    by (simp add: B BI u tmp_state_def del: DOWNLOAD_URLS.simps)
  \<comment> \<open>a platform without a download\<close>
  have nm': "\<not> descriptor_matches (currentBuildInfo ?w cached_state) ''win32'' ''1234'' (name_of Firefox)"
    by code_simp
  have nn': "currentBuildInfo ?w cached_state \<noteq> JNull" by code_simp
  have t': "\<not> property_truthy (object_get (DOWNLOAD_URLS Firefox) ''win32'')" by code_simp
  from ensureFirefoxBuild_cache[OF n p2 mk'] nm' nn' t'
  have d: "ensureFirefoxBuild ?w Firefox (Some ''1234'') (Some ''win32'') cached_state
     = Some (Inl (Error (''ERROR: repack-juggler does not support '' @ ''win32'')), ?wiped)"
    by blast
  \<comment> \<open>a platform that names an inherited property\<close>
  have nm'': "\<not> descriptor_matches (currentBuildInfo ?w cached_state) ''constructor'' ''1234'' (name_of Firefox)"
    by code_simp
  have t'': "property_truthy (object_get (DOWNLOAD_URLS Firefox) ''constructor'')" by code_simp
  have de: "download_and_extract ?w Firefox ''1234'' ''constructor''
      (format_property (object_get (DOWNLOAD_URLS Firefox) ''constructor'') ''1234'') ?wiped
      = Some (Inl (RequestError ''[Function: Object] 1234''),
              \<lparr>fs = [(?B, Dir), ([''tmp''], Dir)],
               events = [Rm ?B, Mkdir ?B, HttpRequest ''GET'' ''[Function: Object] 1234'']\<rparr>)"
    by code_simp
  from ensureFirefoxBuild_cache[OF n p3 mk'] nm'' nn' t''
  have "ensureFirefoxBuild ?w Firefox (Some ''1234'') (Some ''constructor'') cached_state
     = download_and_extract ?w Firefox ''1234'' ''constructor''
         (format_property (object_get (DOWNLOAD_URLS Firefox) ''constructor'') ''1234'') ?wiped"
    by blast
  with de have e: "ensureFirefoxBuild ?w Firefox (Some ''1234'') (Some ''constructor'') cached_state
     = Some (Inl (RequestError ''[Function: Object] 1234''),
             \<lparr>fs = [(?B, Dir), ([''tmp''], Dir)],
              events = [Rm ?B, Mkdir ?B, HttpRequest ''GET'' ''[Function: Object] 1234'']\<rparr>)"
    by simp
  from a b c ev d e show ?thesis by auto
qed

text \<open>
  The claim C1 as it was stated has every mismatch end in a download and a returned
  descriptor. On a host running macOS 10.13 with a build for Ubuntu staged, the request
  does not match, the staged build is removed, and the call throws: the table has no
  download for \<^verbatim>\<open>mac10.13\<close>.
\<close>

theorem ensureFirefoxBuild_unsupported_counterexample:
  "\<not> descriptor_matches (currentBuildInfo (sample_world ''darwin'' ''10.13.6'' ''0'') cached_state)
        ''mac10.13'' ''1234'' ''firefox''
   \<and> ensureFirefoxBuild (sample_world ''darwin'' ''10.13.6'' ''0'') Firefox (Some ''1234'') None cached_state
     = Some (Inl (Error ''ERROR: repack-juggler does not support mac10.13''),
             \<lparr>fs = [([''tmp'', ''repackaged-firefox''], Dir), ([''tmp''], Dir)],
              events = [ExecSync ''sw_vers -productVersion'',
                        Rm [''tmp'', ''repackaged-firefox''],
                        Mkdir [''tmp'', ''repackaged-firefox'']]\<rparr>)"
  by code_simp

end
